theory Spec2Isabelle
  imports Complex_Main "HOL-Library.Sublist"
begin

section \<open>Data model\<close>

text \<open>
  A Python \<open>str\<close> is a sequence of Unicode code points and \<open>len\<close> counts code points
  (the header of a frame holds U+2014, the status message U+2026), so a string is a list
  of code points. \<open>U\<close> reads an ASCII literal as such a list.

  Python floats are modelled by exact rationals: \<open>time_s\<close>, \<open>position_s\<close> and
  \<open>duration_s\<close> are quotients of integers that the code below only adds, compares and
  truncates; the rounding of IEEE doubles is not modelled.
\<close>

type_synonym ustr = "nat list"

abbreviation (input) U :: "string \<Rightarrow> ustr" where
  "U s \<equiv> map of_char s"

text \<open>
  The exceptions of the modelled code: \<open>IndexError\<close> of a list access, \<open>ValueError\<close>
  of \<open>int(...)\<close>, \<open>termios.error\<close>, \<open>BrokenPipeError\<close> of a flush of the output stream,
  and \<open>External\<close> for whatever an external collaborator raises
  (the D-Bus query of \<open>get_now_playing\<close>, the HTTP client of \<open>fetch_lyrics\<close>).
\<close>

datatype error = IndexError | ValueError | TermiosError | BrokenPipeError | External ustr

text \<open>\<open>lyrics.py\<close>, class \<open>LyricLine\<close> (field \<open>text\<close> is named \<open>line_text\<close> here).\<close>

record LyricLine =
  time_s :: rat
  line_text :: ustr

text \<open>\<open>xs[i]\<close> of a Python list: a negative index counts from the end, any other index
  out of range raises \<open>IndexError\<close>.\<close>

definition py_index :: "'a list \<Rightarrow> int \<Rightarrow> error + 'a" where
  "py_index xs i =
     (if 0 \<le> i \<and> i < int (length xs) then Inr (xs ! nat i)
      else if i < 0 \<and> - int (length xs) \<le> i then Inr (xs ! nat (int (length xs) + i))
      else Inl IndexError)"

section \<open>The active-line locator\<close>

text \<open>
  \<open>display.py\<close>, \<open>_find_active_line\<close>:
  \<^verbatim>\<open>
    lo, hi, result = 0, len(lines) - 1, 0
    while lo <= hi:
        mid = (lo + hi) // 2
        if lines[mid].time_s <= position_s:
            result = mid
            lo = mid + 1
        else:
            hi = mid - 1
    return result
  \<close>
  \<open>find_loop\<close> is the \<open>while\<close> loop on its three variables.
\<close>

function find_loop :: "LyricLine list \<Rightarrow> rat \<Rightarrow> int \<Rightarrow> int \<Rightarrow> int \<Rightarrow> error + int" where
  "find_loop lines position_s lo hi result =
     (if lo \<le> hi then
        (let mid = (lo + hi) div 2 in
         case py_index lines mid of
           Inl e \<Rightarrow> Inl e
         | Inr l \<Rightarrow>
             if time_s l \<le> position_s
             then find_loop lines position_s (mid + 1) hi mid
             else find_loop lines position_s lo (mid - 1) result)
      else Inr result)"
  by pat_completeness auto
termination
  by (relation "measure (\<lambda>(lines, p, lo, hi, r). nat (hi - lo + 1))") auto

declare find_loop.simps [simp del]

definition find_active_line :: "LyricLine list \<Rightarrow> rat \<Rightarrow> error + int" where
  "find_active_line lines position_s =
     find_loop lines position_s 0 (int (length lines) - 1) 0"

section \<open>Strings, numbers and ANSI escape sequences\<close>

text \<open>\<open>str(n)\<close> for an integer: decimal digits, with a leading minus sign.\<close>

fun digits_nat :: "nat \<Rightarrow> ustr" where
  "digits_nat n = (if n < 10 then [48 + n] else digits_nat (n div 10) @ [48 + n mod 10])"

declare digits_nat.simps [simp del]

definition str_int :: "int \<Rightarrow> ustr" where
  "str_int i = (if i < 0 then 45 # digits_nat (nat (- i)) else digits_nat (nat i))"

text \<open>The format \<open>{s:02d}\<close>: zero padding to width 2, after the sign.\<close>

definition format_02d :: "int \<Rightarrow> ustr" where
  "format_02d i =
     (if i < 0
      then (let ds = digits_nat (nat (- i)) in 45 # replicate (1 - length ds) 48 @ ds)
      else (let ds = digits_nat (nat i) in replicate (2 - length ds) 48 @ ds))"

text \<open>\<open>int(x)\<close> of a float truncates towards zero.\<close>

definition py_trunc :: "rat \<Rightarrow> int" where
  "py_trunc x = (if 0 \<le> x then \<lfloor>x\<rfloor> else \<lceil>x\<rceil>)"

text \<open>\<open>" " * n\<close> is empty for a negative \<open>n\<close>.\<close>

definition spaces :: "int \<Rightarrow> ustr" where
  "spaces n = replicate (nat n) 32"

text \<open>\<open>text[:width]\<close>: a negative stop counts from the end.\<close>

definition slice_to :: "ustr \<Rightarrow> int \<Rightarrow> ustr" where
  "slice_to s w = (if 0 \<le> w then take (nat w) s else take (nat (int (length s) + w)) s)"

text \<open>
  \<open>str.center(w)\<close> as CPython pads: nothing when the text is at least \<open>w\<close> long,
  otherwise \<open>marg = w - len\<close> spaces, \<open>marg // 2 + (marg & w & 1)\<close> of them on the left.
\<close>

definition py_center :: "ustr \<Rightarrow> int \<Rightarrow> ustr" where
  "py_center s w =
     (let n = int (length s) in
      if w \<le> n then s
      else (let marg = w - n;
                left = marg div 2 + (if odd marg \<and> odd w then 1 else 0)
            in spaces left @ s @ spaces (marg - left)))"

definition ESC :: ustr where "ESC = [27, 91]"
definition RESET :: ustr where "RESET = ESC @ U ''0m''"
definition BOLD :: ustr where "BOLD = ESC @ U ''1m''"
definition DIM :: ustr where "DIM = ESC @ U ''2m''"
definition HIDE_CURSOR :: ustr where "HIDE_CURSOR = ESC @ U ''?25l''"
definition SHOW_CURSOR :: ustr where "SHOW_CURSOR = ESC @ U ''?25h''"
definition CLEAR :: ustr where "CLEAR = ESC @ U ''2J'' @ ESC @ U ''H''"
definition EL :: ustr where "EL = ESC @ U ''K''"
definition SYNC_START :: ustr where "SYNC_START = [27] @ U ''[?2026h''"
definition SYNC_END :: ustr where "SYNC_END = [27] @ U ''[?2026l''"
definition FG_YELLOW :: ustr where "FG_YELLOW = ESC @ U ''33m''"
definition FG_BLUE :: ustr where "FG_BLUE = ESC @ U ''34m''"
definition FG_MAGENTA :: ustr where "FG_MAGENTA = ESC @ U ''35m''"
definition FG_CYAN :: ustr where "FG_CYAN = ESC @ U ''36m''"
definition FG_WHITE :: ustr where "FG_WHITE = ESC @ U ''37m''"
definition FG_BR_BLACK :: ustr where "FG_BR_BLACK = ESC @ U ''90m''"
definition FG_BR_WHITE :: ustr where "FG_BR_WHITE = ESC @ U ''97m''"
definition BG_BLUE :: ustr where "BG_BLUE = ESC @ U ''44m''"

text \<open>The separator of the header (U+2014 between two spaces) and the three status
  messages; the "Fetching lyrics" message ends in U+2026.\<close>

definition DASH_SEP :: ustr where "DASH_SEP = [32, 8212, 32]"
definition MSG_NO_PLAYER :: ustr where "MSG_NO_PLAYER = U ''No media player detected.''"
definition MSG_FETCHING :: ustr where "MSG_FETCHING = U ''Fetching lyrics'' @ [8230]"
definition MSG_NO_LYRICS :: ustr where "MSG_NO_LYRICS = U ''No synced lyrics found.''"

text \<open>\<open>_move(row, col)\<close>.\<close>

definition move :: "int \<Rightarrow> int \<Rightarrow> ustr" where
  "move row col = ESC @ str_int row @ U '';'' @ str_int col @ U ''H''"

section \<open>Playback state\<close>

text \<open>\<open>media.py\<close>, class \<open>NowPlaying\<close> with its two properties.\<close>

record NowPlaying =
  title :: ustr
  artist :: ustr
  album :: ustr
  duration_us :: int
  position_us :: int
  player_name :: ustr
  is_playing :: bool

definition duration_s :: "NowPlaying \<Rightarrow> rat" where
  "duration_s np = of_int (duration_us np) / 1000000"

definition position_s :: "NowPlaying \<Rightarrow> rat" where
  "position_s np = of_int (position_us np) / 1000000"

section \<open>Styles and frame builders\<close>

text \<open>\<open>_format_time\<close>: \<open>m, s = divmod(int(seconds), 60)\<close>, then \<open>f"{m}:{s:02d}"\<close>.\<close>

definition format_time :: "rat \<Rightarrow> ustr" where
  "format_time seconds =
     (let n = py_trunc seconds; m = n div 60; s = n mod 60
      in str_int m @ U '':'' @ format_02d s)"

text \<open>\<open>_active\<close>, the list \<open>_GRAD\<close> of six style functions, \<open>_styled_line\<close> and
  \<open>_center\<close>. In \<open>_styled_line\<close> the distance \<open>dist\<close> (a constant of HOL, hence
  \<open>distance\<close> here) is the integer \<open>abs(lyric_idx - active_idx)\<close>,
  on which \<open>int(round(dist))\<close> is the identity; the index \<open>min(d, len(_GRAD) - 1)\<close> with
  \<open>d = max(0, ...)\<close> lies inside the list.\<close>

definition active :: "ustr \<Rightarrow> int \<Rightarrow> ustr" where
  "active txt w = BOLD @ BG_BLUE @ FG_BR_WHITE @ py_center txt w @ RESET @ EL"

definition GRAD :: "(ustr \<Rightarrow> ustr) list" where
  "GRAD =
     [\<lambda>t. BOLD @ FG_WHITE @ t @ RESET @ EL,
      \<lambda>t. FG_WHITE @ t @ RESET @ EL,
      \<lambda>t. FG_CYAN @ t @ RESET @ EL,
      \<lambda>t. FG_BLUE @ t @ RESET @ EL,
      \<lambda>t. FG_BR_BLACK @ t @ RESET @ EL,
      \<lambda>t. DIM @ FG_BR_BLACK @ t @ RESET @ EL]"

definition styled_line :: "ustr \<Rightarrow> int \<Rightarrow> ustr" where
  "styled_line txt distance =
     (let d = max 0 (distance - 1)
      in (GRAD ! nat (min d (int (length GRAD) - 1))) txt)"

definition center :: "ustr \<Rightarrow> int \<Rightarrow> ustr" where
  "center txt width =
     (if int (length txt) \<ge> width then slice_to txt width
      else spaces ((width - int (length txt)) div 2) @ txt)"

text \<open>The closing loop of both builders: \<open>while len(rows) < h: rows.append(_EL)\<close>.\<close>

function pad_rows :: "ustr list \<Rightarrow> int \<Rightarrow> ustr list" where
  "pad_rows rows h = (if int (length rows) < h then pad_rows (rows @ [EL]) h else rows)"
  by pat_completeness auto
termination
  by (relation "measure (\<lambda>(rows, h). nat (h - int (length rows)))") auto

declare pad_rows.simps [simp del]

text \<open>\<open>pos_str\<close> and \<open>dur_str\<close> of the headers.\<close>

definition pos_str :: "NowPlaying \<Rightarrow> ustr" where
  "pos_str now = format_time (position_s now)"

definition dur_str :: "NowPlaying \<Rightarrow> ustr" where
  "dur_str now = (if duration_s now > 0 then format_time (duration_s now) else U ''?:??'')"

definition header_plain :: "NowPlaying \<Rightarrow> ustr" where
  "header_plain now =
     title now @ DASH_SEP @ artist now @ U ''  '' @ pos_str now @ U '' / '' @ dur_str now"

text \<open>The header row of \<open>_build_frame\<close>.\<close>

definition frame_header :: "NowPlaying \<Rightarrow> int \<Rightarrow> ustr" where
  "frame_header now w =
     (let pad = max 0 ((w - int (length (header_plain now))) div 2)
      in spaces pad
         @ BOLD @ FG_MAGENTA @ title now @ RESET
         @ FG_BR_BLACK @ DASH_SEP @ RESET
         @ FG_CYAN @ artist now @ RESET
         @ FG_YELLOW @ U ''  '' @ pos_str now @ U '' / '' @ dur_str now @ RESET @ EL)"

text \<open>The body of the \<open>for row in range(available)\<close> loop of \<open>_build_frame\<close>: the row
  appended for window position \<open>row\<close>. The list access is guarded by the range test
  before it.\<close>

definition lyric_row :: "LyricLine list \<Rightarrow> int \<Rightarrow> int \<Rightarrow> int \<Rightarrow> int \<Rightarrow> ustr" where
  "lyric_row lines active_idx w start_idx row =
     (let lyric_idx = start_idx + row in
      if lyric_idx < 0 \<or> lyric_idx \<ge> int (length lines) then EL
      else (let lyric = line_text (lines ! nat lyric_idx);
                distance = \<bar>lyric_idx - active_idx\<bar>
            in if distance = 0 then active lyric w
               else styled_line (center lyric w) distance))"

definition build_frame ::
    "LyricLine list \<Rightarrow> int \<Rightarrow> NowPlaying \<Rightarrow> int \<Rightarrow> int \<Rightarrow> ustr list" where
  "build_frame lines active_idx now w h =
     (let rows = [frame_header now w, EL];
          available = h - 3;
          half = available div 2;
          start_idx = active_idx - half;
          rows = rows @ map (lyric_row lines active_idx w start_idx) [0..available - 1]
      in pad_rows rows h)"

text \<open>\<open>_build_status\<close>; \<open>if now:\<close> tests for \<open>None\<close> (a dataclass instance is true).\<close>

definition status_header :: "NowPlaying option \<Rightarrow> ustr" where
  "status_header now = (case now of Some n \<Rightarrow> header_plain n | None \<Rightarrow> U ''pylyrics'')"

definition status_row :: "ustr \<Rightarrow> int \<Rightarrow> int \<Rightarrow> int \<Rightarrow> ustr" where
  "status_row message w mid i =
     (if i = mid then FG_BR_BLACK @ center message w @ RESET @ EL else EL)"

definition build_status :: "ustr \<Rightarrow> NowPlaying option \<Rightarrow> int \<Rightarrow> int \<Rightarrow> ustr list" where
  "build_status message now w h =
     (let rows = [FG_BR_BLACK @ center (status_header now) w @ RESET @ EL, EL];
          available = h - 3;
          mid = available div 2;
          rows = rows @ map (status_row message w mid) [0..available - 1]
      in pad_rows rows h)"

section \<open>The terminal and the differential writer\<close>

text \<open>
  The terminal as the code sees it: the strings passed to \<open>sys.stdout.write\<close>, the
  number of \<open>flush\<close> calls that succeeded, whether the reader of \<open>sys.stdout\<close> is gone
  (a closed pipe or a vanished terminal: \<open>flush\<close> then raises \<open>BrokenPipeError\<close>),
  whether \<open>sys.stdin\<close> is a terminal, and its input mode. Of the mode, the fields
  \<open>tty.setcbreak\<close> changes are kept apart (ECHO, ICANON, VMIN, VTIME); \<open>other_flags\<close>
  stands for the rest of the attribute list.

  An operation that may raise returns the exception, if any, with the state it leaves.
\<close>

record termios_attr =
  echo :: bool
  icanon :: bool
  vmin :: nat
  vtime :: nat
  other_flags :: nat

record terminal =
  written :: "ustr list"
  flushes :: nat
  stdout_broken :: bool
  stdin_tty :: bool
  input_mode :: termios_attr

text \<open>\<open>out.write\<close> fills the buffer of the stream; \<open>out.flush\<close> hands it to the reader.\<close>

definition out_write :: "ustr \<Rightarrow> terminal \<Rightarrow> terminal" where
  "out_write s t = t\<lparr>written := written t @ [s]\<rparr>"

definition out_flush :: "terminal \<Rightarrow> error option \<times> terminal" where
  "out_flush t =
     (if stdout_broken t then (Some BrokenPipeError, t)
      else (None, t\<lparr>flushes := Suc (flushes t)\<rparr>))"

text \<open>\<open>termios.tcgetattr\<close> raises \<open>termios.error\<close> when the descriptor is no terminal.\<close>

definition tcgetattr :: "terminal \<Rightarrow> error + termios_attr" where
  "tcgetattr t = (if stdin_tty t then Inr (input_mode t) else Inl TermiosError)"

definition tcsetattr :: "termios_attr \<Rightarrow> terminal \<Rightarrow> terminal" where
  "tcsetattr a t = t\<lparr>input_mode := a\<rparr>"

definition setcbreak :: "terminal \<Rightarrow> terminal" where
  "setcbreak t =
     t\<lparr>input_mode := (input_mode t)\<lparr>echo := False, icanon := False, vmin := 1, vtime := 0\<rparr>\<rparr>"

text \<open>
  What the terminal makes of the output stream, for the cursor: scanning the characters
  received, each occurrence of the sequence \<open>ESC [ ? 2 5 h\<close> shows the cursor and each
  \<open>ESC [ ? 2 5 l\<close> hides it. \<open>cursor_after v s\<close> is the visibility after the text \<open>s\<close>,
  from visibility \<open>v\<close>.
\<close>

fun cursor_after :: "bool \<Rightarrow> ustr \<Rightarrow> bool" where
  "cursor_after v [] = v"
| "cursor_after v (c # cs) =
     cursor_after
       (if take 6 (c # cs) = SHOW_CURSOR then True
        else if take 6 (c # cs) = HIDE_CURSOR then False
        else v) cs"

text \<open>
  \<open>_write_diff\<close>. \<open>diff_rows\<close> is the loop over \<open>enumerate(cur)\<close>; it carries the list of
  the strings written to the buffer so far and the flag \<open>changed\<close>. The comparison
  \<open>prev[row_idx] != line\<close> is reached only for \<open>row_idx < len(prev)\<close>.
\<close>

fun diff_rows ::
    "ustr list \<Rightarrow> bool \<Rightarrow> int \<Rightarrow> ustr list \<Rightarrow> ustr list \<times> bool \<Rightarrow> ustr list \<times> bool" where
  "diff_rows prev force row_idx [] acc = acc"
| "diff_rows prev force row_idx (line # rest) (buf, changed) =
     (if force \<or> row_idx \<ge> int (length prev) \<or> prev ! nat row_idx \<noteq> line
      then diff_rows prev force (row_idx + 1) rest (buf @ [move (row_idx + 1) 1, line], True)
      else diff_rows prev force (row_idx + 1) rest (buf, changed))"

definition write_diff ::
    "terminal \<Rightarrow> ustr list \<Rightarrow> ustr list \<Rightarrow> bool \<Rightarrow> error option \<times> terminal" where
  "write_diff out prev cur force =
     (let (buf, changed) = diff_rows prev force 0 cur ([SYNC_START], False);
          buf = buf @ [SYNC_END]
      in if changed then out_flush (out_write (concat buf) out) else (None, out))"

section \<open>The render loop\<close>

text \<open>
  The state of \<open>display_lyrics\<close>: its local variables, the terminal, and a log of the
  calls to \<open>fetch_lyrics\<close> (title, artist, album, duration).
\<close>

record render_state =
  current_lines :: "LyricLine list option"
  current_info :: NowPlaying
  previous_idx :: int
  prev_frame :: "ustr list"
  needs_redraw :: bool
  out :: terminal
  fetch_calls :: "(ustr \<times> ustr \<times> ustr \<times> rat) list"

text \<open>
  What the outside world does during one iteration: whether \<open>interrupted\<close> is set when
  the loop test runs (a SIGINT was delivered before it), whether a SIGWINCH was
  delivered during the sleep, whether the reader of \<open>sys.stdout\<close> went away during the
  sleep, the result of \<open>os.get_terminal_size\<close> (\<open>None\<close> for \<open>OSError\<close>), the result of
  \<open>get_now_playing\<close> and, if it is called, of \<open>fetch_lyrics\<close>; both collaborators may
  raise.
\<close>

record tick_env =
  sigint :: bool
  sigwinch :: bool
  stdout_breaks :: bool
  os_term_size :: "(int \<times> int) option"
  now_playing :: "error + NowPlaying option"
  fetched :: "error + LyricLine list option"

text \<open>\<open>_term_size\<close>.\<close>

definition term_size :: "(int \<times> int) option \<Rightarrow> int \<times> int" where
  "term_size sz = (case sz of Some (columns, lines) \<Rightarrow> (columns, lines) | None \<Rightarrow> (80, 24))"

text \<open>The three statements \<open>_write_diff(out, prev_frame, frame, needs_redraw)\<close>,
  \<open>prev_frame = frame\<close>, \<open>needs_redraw = False\<close> that follow each frame built; the two
  assignments are not reached when the write raises.\<close>

definition show_frame :: "ustr list \<Rightarrow> render_state \<Rightarrow> error option \<times> render_state" where
  "show_frame frame st =
     (case write_diff (out st) (prev_frame st) frame (needs_redraw st) of
        (Some e, t) \<Rightarrow> (Some e, st\<lparr>out := t\<rparr>)
      | (None, t) \<Rightarrow> (None, st\<lparr>out := t, prev_frame := frame, needs_redraw := False\<rparr>))"

text \<open>The branch \<open># Song changed\<close>; \<open>if not current_lines\<close> turns an empty list into
  \<open>None\<close>.\<close>

definition song_changed ::
    "tick_env \<Rightarrow> NowPlaying \<Rightarrow> int \<Rightarrow> int \<Rightarrow> render_state \<Rightarrow> error option \<times> render_state" where
  "song_changed env now w h st =
     (let st = st\<lparr>current_info := now, previous_idx := - 1, prev_frame := []\<rparr>;
          frame = build_status MSG_FETCHING (Some now) w h
      in case write_diff (out st) (prev_frame st) frame True of
           (Some e, t) \<Rightarrow> (Some e, st\<lparr>out := t\<rparr>)
         | (None, t) \<Rightarrow>
             (let st = st\<lparr>out := t, prev_frame := frame\<rparr>;
                  st = st\<lparr>fetch_calls :=
                           fetch_calls st @ [(title now, artist now, album now, duration_s now)]\<rparr>
              in case fetched env of
                   Inl e \<Rightarrow> (Some e, st)
                 | Inr r \<Rightarrow>
                     (None, st\<lparr>current_lines :=
                                 (case r of None \<Rightarrow> None
                                  | Some ls \<Rightarrow> if ls = [] then None else Some ls),
                               needs_redraw := True\<rparr>)))"

text \<open>What happened during \<open>time.sleep(_POLL_DT)\<close>: the handler of SIGWINCH set
  \<open>needs_redraw\<close>, the reader of the output went away.\<close>

definition after_sleep :: "tick_env \<Rightarrow> render_state \<Rightarrow> render_state" where
  "after_sleep env st =
     st\<lparr>needs_redraw := needs_redraw st \<or> sigwinch env,
        out := (out st)\<lparr>stdout_broken := stdout_broken (out st) \<or> stdout_breaks env\<rparr>\<rparr>"

text \<open>One iteration of the \<open>while\<close> loop, after its test: the exception raised, if any,
  and the state.\<close>

definition tick :: "tick_env \<Rightarrow> render_state \<Rightarrow> error option \<times> render_state" where
  "tick env st0 =
     (let st = after_sleep env st0;
          (w, h) = term_size (os_term_size env)
      in case now_playing env of
           Inl e \<Rightarrow> (Some e, st)
         | Inr None \<Rightarrow> show_frame (build_status MSG_NO_PLAYER None w h) st
         | Inr (Some now) \<Rightarrow>
             if title now \<noteq> title (current_info st) \<or> artist now \<noteq> artist (current_info st)
             then song_changed env now w h st
             else (case current_lines st of
                     None \<Rightarrow> show_frame (build_status MSG_NO_LYRICS (Some now) w h) st
                   | Some lines \<Rightarrow>
                       (case find_active_line lines (position_s now) of
                          Inl e \<Rightarrow> (Some e, st)
                        | Inr active_idx \<Rightarrow>
                            (if active_idx \<noteq> previous_idx st \<or> needs_redraw st
                             then (case show_frame (build_frame lines active_idx now w h) st of
                                     (Some e, st) \<Rightarrow> (Some e, st)
                                   | (None, st) \<Rightarrow> (None, st\<lparr>previous_idx := active_idx\<rparr>))
                             else (None, st\<lparr>previous_idx := active_idx\<rparr>)))))"

text \<open>
  The loop \<open>while not interrupted\<close> over a finite record of what the outside world does:
  \<open>None\<close> when the record ends with the loop still running, otherwise the exception that
  left the loop (\<open>None\<close> for a normal exit) and the state.
\<close>

fun run_loop :: "tick_env list \<Rightarrow> render_state \<Rightarrow> (error option \<times> render_state) option" where
  "run_loop [] st = None"
| "run_loop (env # rest) st =
     (if sigint env then Some (None, st)
      else (case tick env st of
              (Some e, st') \<Rightarrow> Some (Some e, st')
            | (None, st') \<Rightarrow> run_loop rest st'))"

text \<open>
  The \<open>finally\<close> block of \<open>display_lyrics\<close>, entered with the pending exception \<open>exc\<close>
  of the \<open>try\<close> block; \<open>saved\<close> is \<open>old_termios\<close> when \<open>has_termios\<close> holds. An exception
  raised by the block itself ends it there and takes the place of the pending one.
\<close>

definition restore ::
    "termios_attr option \<Rightarrow> error option \<Rightarrow> terminal \<Rightarrow> error option \<times> terminal" where
  "restore saved exc t =
     (case out_flush (out_write CLEAR (out_write SHOW_CURSOR t)) of
        (Some e, t) \<Rightarrow> (Some e, t)
      | (None, t) \<Rightarrow>
          (exc, case saved of Some old_termios \<Rightarrow> tcsetattr old_termios t | None \<Rightarrow> t))"

text \<open>
  The \<open>try\<close> block of \<open>display_lyrics\<close> after the switch to cbreak mode: the cursor is
  hidden, the screen cleared, and the loop runs. The result is the pending exception
  and the terminal with which the \<open>finally\<close> block is entered, or \<open>None\<close> when the loop
  is still running at the end of the record.
\<close>

definition try_block ::
    "LyricLine list option \<Rightarrow> NowPlaying \<Rightarrow> tick_env list \<Rightarrow> terminal
     \<Rightarrow> (error option \<times> terminal) option" where
  "try_block lines initial_info world t =
     (case out_flush (out_write CLEAR (out_write HIDE_CURSOR t)) of
        (Some e, t) \<Rightarrow> Some (Some e, t)
      | (None, t) \<Rightarrow>
          (case run_loop world
                  \<lparr>current_lines = lines, current_info = initial_info,
                   previous_idx = - 1, prev_frame = [], needs_redraw = True,
                   out = t, fetch_calls = []\<rparr> of
             None \<Rightarrow> None
           | Some (exc, st) \<Rightarrow> Some (exc, out st)))"

text \<open>
  \<open>display_lyrics\<close>: the exception it ends with (\<open>None\<close> for a return) and the terminal
  it leaves, or \<open>None\<close> when the loop is still running at the end of the record.
  \<open>saved\<close> is \<open>old_termios\<close>, present when \<open>has_termios\<close> holds.
  The two signal handlers are modelled by the flags of \<open>tick_env\<close>; their installation
  and removal is not.
\<close>

definition display_lyrics ::
    "LyricLine list option \<Rightarrow> NowPlaying \<Rightarrow> tick_env list \<Rightarrow> terminal
     \<Rightarrow> (error option \<times> terminal) option" where
  "display_lyrics lines initial_info world t =
     (let saved = (case tcgetattr t of Inr a \<Rightarrow> Some a | Inl e \<Rightarrow> None);
          t = (if saved \<noteq> None then setcbreak t else t)
      in case try_block lines initial_info world t of
           None \<Rightarrow> None
         | Some (exc, t) \<Rightarrow> Some (restore saved exc t))"

section \<open>Pipe mode\<close>

text \<open>
  One iteration of the loop of \<open>display_pipe\<close>, after its test, on the pair of
  \<open>previous_idx\<close> and the lines printed so far: the loop goes on, the function returns
  (the song changed), or the list access raises.
\<close>

datatype pipe_step = Continue int "ustr list" | Return | Raise error

definition display_pipe_step ::
    "LyricLine list \<Rightarrow> NowPlaying \<Rightarrow> NowPlaying option \<Rightarrow> int \<Rightarrow> ustr list \<Rightarrow> pipe_step" where
  "display_pipe_step lines initial_info now_opt previous printed =
     (case now_opt of
        None \<Rightarrow> Continue previous printed
      | Some now \<Rightarrow>
          if title now \<noteq> title initial_info \<or> artist now \<noteq> artist initial_info then Return
          else if \<not> is_playing now then Continue previous printed
          else (case find_active_line lines (position_s now) of
                  Inl e \<Rightarrow> Raise e
                | Inr active_idx \<Rightarrow>
                    if active_idx \<noteq> previous
                    then (case py_index lines active_idx of
                            Inl e \<Rightarrow> Raise e
                          | Inr l \<Rightarrow>
                              Continue active_idx
                                (if line_text l \<noteq> [] then printed @ [line_text l] else printed))
                    else Continue previous printed))"

section \<open>The LRC parser\<close>

text \<open>
  The character classes of the Python runtime that \<open>parse_lrc\<close> relies on.
  \<open>is_space\<close> is the whitespace of \<open>str.strip\<close> and of \<open>\s\<close> in a \<open>str\<close> pattern;
  \<open>is_linebreak\<close> is the set of line boundaries of \<open>str.splitlines\<close>.
  The decimal digits of \<open>\d\<close> and \<open>int\<close> are those of the Unicode database, which is
  no part of the repository: the parser takes the table as a parameter \<open>dv\<close>, the
  decimal value of a code point if it has one. \<open>ascii_digits dv\<close> says that the table
  holds the digits \<open>0\<close> to \<open>9\<close>, and \<open>ascii_dv\<close> is the table of these alone.
\<close>

definition is_space :: "nat \<Rightarrow> bool" where
  "is_space c \<longleftrightarrow>
     (9 \<le> c \<and> c \<le> 13) \<or> (28 \<le> c \<and> c \<le> 32) \<or> c = 133 \<or> c = 160 \<or> c = 5760 \<or>
     (8192 \<le> c \<and> c \<le> 8202) \<or> c = 8232 \<or> c = 8233 \<or> c = 8239 \<or> c = 8287 \<or> c = 12288"

definition is_linebreak :: "nat \<Rightarrow> bool" where
  "is_linebreak c \<longleftrightarrow>
     (10 \<le> c \<and> c \<le> 13) \<or> (28 \<le> c \<and> c \<le> 30) \<or> c = 133 \<or> c = 8232 \<or> c = 8233"

type_synonym decimals = "nat \<Rightarrow> nat option"

definition ascii_dv :: decimals where
  "ascii_dv c = (if 48 \<le> c \<and> c \<le> 57 then Some (c - 48) else None)"

definition ascii_digits :: "decimals \<Rightarrow> bool" where
  "ascii_digits dv \<longleftrightarrow> list_all (\<lambda>c. dv c = Some (c - 48)) [48..<58]"

definition is_digit :: "decimals \<Rightarrow> nat \<Rightarrow> bool" where
  "is_digit dv c \<longleftrightarrow> dv c \<noteq> None"

text \<open>\<open>str.strip()\<close> and \<open>str.ljust(width, fill)\<close>.\<close>

definition strip :: "ustr \<Rightarrow> ustr" where
  "strip s = rev (dropWhile is_space (rev (dropWhile is_space s)))"

definition ljust :: "ustr \<Rightarrow> nat \<Rightarrow> nat \<Rightarrow> ustr" where
  "ljust s width fill = s @ replicate (width - length s) fill"

text \<open>
  \<open>str.splitlines()\<close>: the text is cut at every line boundary, \<open>\r\n\<close> counting as one,
  and a boundary at the very end opens no further line.
\<close>

function splitlines :: "ustr \<Rightarrow> ustr list" where
  "splitlines s =
     (if s = [] then []
      else (let line = takeWhile (\<lambda>c. \<not> is_linebreak c) s;
                r = dropWhile (\<lambda>c. \<not> is_linebreak c) s
            in line #
               (case r of
                  [] \<Rightarrow> []
                | c # r1 \<Rightarrow>
                    (case r1 of
                       [] \<Rightarrow> []
                     | c1 # r2 \<Rightarrow> if c = 13 \<and> c1 = 10 then splitlines r2 else splitlines r1))))"
  by pat_completeness auto
termination
proof (relation "measure length")
  show "wf (measure length)" by simp
next
  fix s :: ustr and line r c r1 c1 r2
  assume "r = dropWhile (\<lambda>c. \<not> is_linebreak c) s" "r = c # r1" "r1 = c1 # r2"
  then have "length (c # c1 # r2) \<le> length s"
    using length_dropWhile_le[of "\<lambda>c. \<not> is_linebreak c" s] by simp
  then show "(r2, s) \<in> measure length" by simp
next
  fix s :: ustr and line r c r1 c1 r2
  assume "r = dropWhile (\<lambda>c. \<not> is_linebreak c) s" "r = c # r1" "r1 = c1 # r2"
  then have "length (c # r1) \<le> length s"
    using length_dropWhile_le[of "\<lambda>c. \<not> is_linebreak c" s] by simp
  then show "(r1, s) \<in> measure length" by simp
qed

declare splitlines.simps [simp del]

text \<open>
  \<open>int(s)\<close> on a string of decimal digits, the only strings the digit groups of the
  pattern can hold; on any other string the model reports \<open>ValueError\<close>.
\<close>

definition digits_value :: "decimals \<Rightarrow> ustr \<Rightarrow> nat" where
  "digits_value dv s = foldl (\<lambda>n c. 10 * n + the (dv c)) 0 s"

definition py_int :: "decimals \<Rightarrow> ustr \<Rightarrow> error + int" where
  "py_int dv s =
     (if s \<noteq> [] \<and> list_all (is_digit dv) s then Inr (int (digits_value dv s))
      else Inl ValueError)"

text \<open>
  The pattern
  \<^verbatim>\<open>\[(\d{1,2}):(\d{2})(?:[.:](\d{1,3}))?\]\s*(.*)\<close>
  applied with \<open>pattern.match\<close> (anchored at the start only), as the backtracking
  matcher runs it: each function below matches the rest of the pattern after one of its
  parts and returns the four groups. \<open>first_match\<close> takes the first alternative that
  succeeds; a greedy repetition tries the longest count first. After \<open>\]\<close> nothing can
  fail: \<open>\s*\<close> takes all whitespace and \<open>.*\<close> everything up to a newline.
\<close>

type_synonym groups = "ustr \<times> ustr \<times> ustr option \<times> ustr"

fun first_match :: "'a option list \<Rightarrow> 'a option" where
  "first_match [] = None"
| "first_match (None # alts) = first_match alts"
| "first_match (Some r # alts) = Some r"

definition digits_at :: "decimals \<Rightarrow> nat \<Rightarrow> ustr \<Rightarrow> bool" where
  "digits_at dv n s \<longleftrightarrow> n \<le> length s \<and> list_all (is_digit dv) (take n s)"

definition after_bracket :: "ustr \<Rightarrow> ustr" where
  "after_bracket s = takeWhile (\<lambda>c. c \<noteq> 10) (dropWhile is_space s)"

definition after_frac :: "ustr \<Rightarrow> ustr \<Rightarrow> ustr option \<Rightarrow> ustr \<Rightarrow> groups option" where
  "after_frac g1 g2 g3 s =
     (case s of
        [] \<Rightarrow> None
      | c # r \<Rightarrow> if c = 93 then Some (g1, g2, g3, after_bracket r) else None)"

definition with_frac :: "decimals \<Rightarrow> ustr \<Rightarrow> ustr \<Rightarrow> ustr \<Rightarrow> nat \<Rightarrow> groups option" where
  "with_frac dv g1 g2 s k =
     (case s of
        [] \<Rightarrow> None
      | c # r \<Rightarrow>
          if (c = 46 \<or> c = 58) \<and> digits_at dv k r
          then after_frac g1 g2 (Some (take k r)) (drop k r)
          else None)"

definition after_seconds :: "decimals \<Rightarrow> ustr \<Rightarrow> ustr \<Rightarrow> ustr \<Rightarrow> groups option" where
  "after_seconds dv g1 g2 s =
     first_match (map (with_frac dv g1 g2 s) [3, 2, 1] @ [after_frac g1 g2 None s])"

definition after_minutes :: "decimals \<Rightarrow> ustr \<Rightarrow> ustr \<Rightarrow> groups option" where
  "after_minutes dv g1 s =
     (case s of
        [] \<Rightarrow> None
      | c # r \<Rightarrow>
          if c = 58 \<and> digits_at dv 2 r
          then after_seconds dv g1 (take 2 r) (drop 2 r)
          else None)"

definition with_minutes :: "decimals \<Rightarrow> ustr \<Rightarrow> nat \<Rightarrow> groups option" where
  "with_minutes dv s n =
     (if digits_at dv n s then after_minutes dv (take n s) (drop n s) else None)"

definition pattern_match :: "decimals \<Rightarrow> ustr \<Rightarrow> groups option" where
  "pattern_match dv s =
     (case s of
        [] \<Rightarrow> None
      | c # r \<Rightarrow> if c = 91 then first_match (map (with_minutes dv r) [2, 1]) else None)"

text \<open>
  The body of the loop of \<open>parse_lrc\<close> for one raw line: \<open>None\<close> when the line is
  skipped, otherwise the \<open>LyricLine\<close> appended.
\<close>

definition parse_line :: "decimals \<Rightarrow> ustr \<Rightarrow> error + LyricLine option" where
  "parse_line dv raw_line =
     (case pattern_match dv (strip raw_line) of
        None \<Rightarrow> Inr None
      | Some (g1, g2, g3, g4) \<Rightarrow>
          (case py_int dv g1 of
             Inl e \<Rightarrow> Inl e
           | Inr minutes \<Rightarrow>
               (case py_int dv g2 of
                  Inl e \<Rightarrow> Inl e
                | Inr seconds \<Rightarrow>
                    (let frac_str = (case g3 of Some f \<Rightarrow> f | None \<Rightarrow> U ''0'');
                         frac_str = take 3 (ljust frac_str 3 48)
                     in case py_int dv frac_str of
                          Inl e \<Rightarrow> Inl e
                        | Inr n \<Rightarrow>
                            (let frac = of_int n / 1000;
                                 time_s = of_int (minutes * 60 + seconds) + frac
                             in Inr (Some \<lparr>time_s = time_s, line_text = strip g4\<rparr>))))))"

fun parse_lines :: "decimals \<Rightarrow> ustr list \<Rightarrow> LyricLine list \<Rightarrow> error + LyricLine list" where
  "parse_lines dv [] lines = Inr lines"
| "parse_lines dv (raw_line # rest) lines =
     (case parse_line dv raw_line of
        Inl e \<Rightarrow> Inl e
      | Inr None \<Rightarrow> parse_lines dv rest lines
      | Inr (Some l) \<Rightarrow> parse_lines dv rest (lines @ [l]))"

text \<open>\<open>parse_lrc\<close>; \<open>list.sort(key=...)\<close> is a stable sort, as \<open>sort_key\<close> is.\<close>

definition parse_lrc :: "decimals \<Rightarrow> ustr \<Rightarrow> error + LyricLine list" where
  "parse_lrc dv lrc_text =
     (case parse_lines dv (splitlines lrc_text) [] of
        Inl e \<Rightarrow> Inl e
      | Inr lines \<Rightarrow> Inr (sort_key time_s lines))"

section \<open>Visible content of a row\<close>

text \<open>
  The visible content of a row is what is left of it without its control sequences:
  every styling sequence and the erase-to-end-of-line marker is \<open>ESC [\<close>, parameter
  characters (code points 48 to 63) and one final character.
\<close>

function visible :: "ustr \<Rightarrow> ustr" where
  "visible [] = []"
| "visible (c # cs) =
     (if c = 27 \<and> take 1 cs = [91]
      then (case dropWhile (\<lambda>x. 48 \<le> x \<and> x \<le> 63) (drop 1 cs) of
              [] \<Rightarrow> []
            | final # r \<Rightarrow> visible r)
      else c # visible cs)"
  by pat_completeness auto
termination
proof (relation "measure length")
  show "wf (measure length)" by simp
next
  fix c :: nat and cs :: ustr and final r
  assume "dropWhile (\<lambda>x. 48 \<le> x \<and> x \<le> 63) (drop 1 cs) = final # r"
  then have "length (final # r) \<le> length (drop 1 cs)"
    using length_dropWhile_le[of "\<lambda>x. 48 \<le> x \<and> x \<le> 63" "drop 1 cs"] by simp
  then show "(r, c # cs) \<in> measure length" by simp
next
  fix c :: nat and cs :: ustr
  show "(cs, c # cs) \<in> measure length" by simp
qed

section \<open>Notions used to state the properties of the loop\<close>

text \<open>The text written for a frame that is redrawn in full: every row after the
  instruction that moves the cursor to it, between the two markers.\<close>

definition frame_dump :: "ustr list \<Rightarrow> ustr" where
  "frame_dump frame =
     SYNC_START @ concat (map (\<lambda>i. move (int i + 1) 1 @ frame ! i) [0..<length frame])
     @ SYNC_END"

text \<open>Two states of the terminal of which the second has the input mode and the
  streams of the first, and at most more output.\<close>

definition same_line :: "terminal \<Rightarrow> terminal \<Rightarrow> bool" where
  "same_line t t' \<longleftrightarrow>
     input_mode t' = input_mode t \<and> stdin_tty t' = stdin_tty t \<and>
     stdout_broken t' = stdout_broken t \<and> (\<exists>more. written t' = written t @ more)"

section \<open>Notions used to state the properties of the parser\<close>

text \<open>
  A raw line matches when the pattern matches it after \<open>strip\<close>. For the groups of a
  match: \<open>frac_ok\<close> says that the fraction, if present, is one to three decimal digits;
  \<open>frac_field\<close> is the fraction filled with zeros on the right to three digits
  (\<open>000\<close> without a fraction); \<open>line_of_groups\<close> is the timed line with
  \<open>time_s = minutes * 60 + seconds + fraction\<close>, the fraction in thousandths, and the
  stripped text. \<open>parsed_in_order\<close> lists these lines for the matching lines of a text,
  in the order of the text. A string is \<open>trimmed\<close> when it neither starts nor ends with
  whitespace.
\<close>

definition matching :: "decimals \<Rightarrow> ustr \<Rightarrow> bool" where
  "matching dv raw_line \<longleftrightarrow> pattern_match dv (strip raw_line) \<noteq> None"

definition frac_ok :: "decimals \<Rightarrow> ustr option \<Rightarrow> bool" where
  "frac_ok dv g3 \<longleftrightarrow>
     (case g3 of None \<Rightarrow> True
      | Some f \<Rightarrow> 1 \<le> length f \<and> length f \<le> 3 \<and> list_all (is_digit dv) f)"

definition frac_field :: "ustr option \<Rightarrow> ustr" where
  "frac_field g3 = (case g3 of Some f \<Rightarrow> f @ replicate (3 - length f) 48 | None \<Rightarrow> U ''000'')"

definition line_of_groups :: "decimals \<Rightarrow> groups \<Rightarrow> LyricLine" where
  "line_of_groups dv g =
     (case g of (g1, g2, g3, g4) \<Rightarrow>
        \<lparr>time_s = of_nat (digits_value dv g1 * 60 + digits_value dv g2)
                  + of_nat (digits_value dv (frac_field g3)) / 1000,
         line_text = strip g4\<rparr>)"

definition parsed_in_order :: "decimals \<Rightarrow> ustr \<Rightarrow> LyricLine list" where
  "parsed_in_order dv lrc_text =
     map (\<lambda>raw. line_of_groups dv (the (pattern_match dv (strip raw))))
       (filter (matching dv) (splitlines lrc_text))"

definition trimmed :: "ustr \<Rightarrow> bool" where
  "trimmed s \<longleftrightarrow> s = [] \<or> (\<not> is_space (hd s) \<and> \<not> is_space (last s))"

section \<open>Example inputs\<close>

text \<open>A playback state and a two-line lyric document, used where a property is
  evaluated at a concrete input.\<close>

definition example_now :: NowPlaying where
  "example_now =
     \<lparr>title = U ''T'', artist = U ''A'', album = [], duration_us = 125000000,
      position_us = 61500000, player_name = U ''Player'', is_playing = True\<rparr>"

definition example_lines :: "LyricLine list" where
  "example_lines =
     [\<lparr>time_s = 0, line_text = U ''ab''\<rparr>, \<lparr>time_s = 1, line_text = U ''cdefghijkl''\<rparr>]"

text \<open>A terminal in its normal mode, and an iteration during whose sleep the reader of
  the output goes away (as when the output is piped into a program that exits) while
  no player is found.\<close>

definition example_terminal :: terminal where
  "example_terminal =
     \<lparr>written = [], flushes = 0, stdout_broken = False, stdin_tty = True,
      input_mode = \<lparr>echo = True, icanon = True, vmin = 1, vtime = 0, other_flags = 0\<rparr>\<rparr>"

definition reader_gone :: tick_env where
  "reader_gone =
     \<lparr>sigint = False, sigwinch = False, stdout_breaks = True, os_term_size = None,
      now_playing = Inr None, fetched = Inr None\<rparr>"

text \<open>A state of the render loop in the middle of the example song, and an iteration
  in which nothing happens but the answer \<open>nowo\<close> of the playback source.\<close>

definition example_state :: render_state where
  "example_state =
     \<lparr>current_lines = Some example_lines, current_info = example_now, previous_idx = 0,
      prev_frame = [], needs_redraw = False, out = example_terminal, fetch_calls = []\<rparr>"

definition example_env :: "NowPlaying option \<Rightarrow> tick_env" where
  "example_env nowo =
     \<lparr>sigint = False, sigwinch = False, stdout_breaks = False, os_term_size = Some (20, 5),
      now_playing = Inr nowo, fetched = Inr None\<rparr>"

section \<open>Properties of the active-line locator\<close>

text \<open>The loop returns an index of the list whenever it starts from one, whatever the
  order of the lines.\<close>

lemma find_loop_in_range:
  "0 \<le> lo \<Longrightarrow> hi < int (length ls) \<Longrightarrow> 0 \<le> res \<Longrightarrow> res < int (length ls) \<Longrightarrow>
   \<exists>r. find_loop ls p lo hi res = Inr r \<and> 0 \<le> r \<and> r < int (length ls)"
proof (induction ls p lo hi res rule: find_loop.induct)
  case (1 lines position_s lo hi result)
  show ?case
  proof (cases "lo \<le> hi")
    case False
    then show ?thesis using "1.prems" by (simp add: find_loop.simps)
  next
    case True
    define mid where "mid = (lo + hi) div 2"
    have mid: "lo \<le> mid" "mid \<le> hi" using True by (simp_all add: mid_def)
    then have idx: "py_index lines mid = Inr (lines ! nat mid)"
      using "1.prems" by (simp add: py_index_def)
    show ?thesis
    proof (cases "time_s (lines ! nat mid) \<le> position_s")
      case le: True
      have "\<exists>r. find_loop lines position_s (mid + 1) hi mid = Inr r \<and> 0 \<le> r \<and> r < int (length lines)"
        using "1.IH"(1)[OF True mid_def idx le] mid "1.prems" by simp
      then show ?thesis
        using True idx le by (subst find_loop.simps) (simp add: mid_def[symmetric])
    next
      case gt: False
      have "\<exists>r. find_loop lines position_s lo (mid - 1) result = Inr r \<and> 0 \<le> r \<and> r < int (length lines)"
        using "1.IH"(2)[OF True mid_def idx gt] mid "1.prems" by simp
      then show ?thesis
        using True idx gt by (subst find_loop.simps) (simp add: mid_def[symmetric])
    qed
  qed
qed

lemma find_loop_sorted:
  "sorted (map time_s ls) \<Longrightarrow> 0 \<le> lo \<Longrightarrow> hi < int (length ls) \<Longrightarrow> lo \<le> hi + 1 \<Longrightarrow>
   res = max 0 (lo - 1) \<Longrightarrow>
   (\<forall>j<length ls. int j < lo \<longrightarrow> time_s (ls ! j) \<le> p) \<Longrightarrow>
   (\<forall>j<length ls. hi < int j \<longrightarrow> p < time_s (ls ! j)) \<Longrightarrow>
   \<exists>k. find_loop ls p lo hi res = Inr (max 0 (k - 1)) \<and> 0 \<le> k \<and> k \<le> int (length ls) \<and>
       (\<forall>j<length ls. int j < k \<longrightarrow> time_s (ls ! j) \<le> p) \<and>
       (\<forall>j<length ls. k \<le> int j \<longrightarrow> p < time_s (ls ! j))"
proof (induction ls p lo hi res rule: find_loop.induct)
  case (1 lines position_s lo hi result)
  show ?case
  proof (cases "lo \<le> hi")
    case False
    then have "lo = hi + 1" using "1.prems" by simp
    then show ?thesis using "1.prems" False
      by (subst find_loop.simps) (auto intro!: exI[of _ lo])
  next
    case True
    define mid where "mid = (lo + hi) div 2"
    have mid: "lo \<le> mid" "mid \<le> hi" using True by (simp_all add: mid_def)
    then have idx: "py_index lines mid = Inr (lines ! nat mid)"
      using "1.prems" by (simp add: py_index_def)
    have midlen: "nat mid < length lines" using mid "1.prems" by simp
    show ?thesis
    proof (cases "time_s (lines ! nat mid) \<le> position_s")
      case le: True
      have below: "\<forall>j<length lines. int j < mid + 1 \<longrightarrow> time_s (lines ! j) \<le> position_s"
      proof (intro allI impI)
        fix j assume j: "j < length lines" "int j < mid + 1"
        then have "j \<le> nat mid" by simp
        then have "map time_s lines ! j \<le> map time_s lines ! nat mid"
          using "1.prems"(1) midlen by (simp add: sorted_iff_nth_mono del: nth_map)
        then show "time_s (lines ! j) \<le> position_s" using le j midlen by simp
      qed
      have m: "mid = max 0 (mid + 1 - 1)" using mid "1.prems" by simp
      have "\<exists>k. find_loop lines position_s (mid + 1) hi mid = Inr (max 0 (k - 1)) \<and> 0 \<le> k \<and> k \<le> int (length lines) \<and>
       (\<forall>j<length lines. int j < k \<longrightarrow> time_s (lines ! j) \<le> position_s) \<and>
       (\<forall>j<length lines. k \<le> int j \<longrightarrow> position_s < time_s (lines ! j))"
      proof (rule "1.IH"(1)[OF True mid_def idx le "1.prems"(1) _ "1.prems"(3) _ m below "1.prems"(7)])
        show "0 \<le> mid + 1" using mid "1.prems" by simp
        show "mid + 1 \<le> hi + 1" using mid by simp
      qed
      then show ?thesis
        using True idx le by (subst find_loop.simps) (simp add: mid_def[symmetric])
    next
      case gt: False
      have above: "\<forall>j<length lines. mid - 1 < int j \<longrightarrow> position_s < time_s (lines ! j)"
      proof (intro allI impI)
        fix j assume j: "j < length lines" "mid - 1 < int j"
        then have "nat mid \<le> j" by simp
        then have "map time_s lines ! nat mid \<le> map time_s lines ! j"
          using "1.prems"(1) j by (simp add: sorted_iff_nth_mono del: nth_map)
        then show "position_s < time_s (lines ! j)" using gt j midlen by simp
      qed
      have "\<exists>k. find_loop lines position_s lo (mid - 1) result = Inr (max 0 (k - 1)) \<and> 0 \<le> k \<and> k \<le> int (length lines) \<and>
       (\<forall>j<length lines. int j < k \<longrightarrow> time_s (lines ! j) \<le> position_s) \<and>
       (\<forall>j<length lines. k \<le> int j \<longrightarrow> position_s < time_s (lines ! j))"
      proof (rule "1.IH"(2)[OF True mid_def idx gt "1.prems"(1,2) _ _ "1.prems"(5,6) above])
        show "mid - 1 < int (length lines)" using mid "1.prems" by simp
        show "lo \<le> mid - 1 + 1" using mid by simp
      qed
      then show ?thesis
        using True idx gt by (subst find_loop.simps) (simp add: mid_def[symmetric])
    qed
  qed
qed

text \<open>
  C1. For lines sorted by \<open>time_s\<close> and any position \<open>p\<close>, \<open>_find_active_line\<close> returns
  the largest index whose \<open>time_s\<close> is at most \<open>p\<close>: that line is at or before \<open>p\<close>
  and every index with a line at or before \<open>p\<close> is at most the result, so among several
  lines with one timestamp the last is returned. It returns 0 when there is no such
  index (the list is empty, or \<open>p\<close> is before the first timestamp).
\<close>

theorem find_active_line_largest:
  assumes "sorted (map time_s lines)"
  shows "\<exists>r. find_active_line lines p = Inr r \<and>
           (if \<exists>i<length lines. time_s (lines ! i) \<le> p
            then 0 \<le> r \<and> nat r < length lines \<and> time_s (lines ! nat r) \<le> p \<and>
                 (\<forall>j<length lines. time_s (lines ! j) \<le> p \<longrightarrow> j \<le> nat r)
            else r = 0)"
proof -
  obtain k where k: "find_loop lines p 0 (int (length lines) - 1) 0 = Inr (max 0 (k - 1))"
      "0 \<le> k" "k \<le> int (length lines)"
      "\<forall>j<length lines. int j < k \<longrightarrow> time_s (lines ! j) \<le> p"
      "\<forall>j<length lines. k \<le> int j \<longrightarrow> p < time_s (lines ! j)"
    using find_loop_sorted[OF assms, of 0 "int (length lines) - 1" 0 p] by auto
  show ?thesis
  proof (cases "\<exists>i<length lines. time_s (lines ! i) \<le> p")
    case True
    then obtain i where i: "i < length lines" "time_s (lines ! i) \<le> p" by blast
    have "int i < k" using k(5) i by force
    then have k1: "1 \<le> k" by simp
    have r: "nat (k - 1) < length lines" using k1 k(3) by simp
    have le: "time_s (lines ! nat (k - 1)) \<le> p" using k(4) r k1 by simp
    have top: "\<forall>j<length lines. time_s (lines ! j) \<le> p \<longrightarrow> j \<le> nat (k - 1)"
    proof (intro allI impI)
      fix j assume j: "j < length lines" "time_s (lines ! j) \<le> p"
      then have "int j < k" using k(5) by force
      then show "j \<le> nat (k - 1)" by simp
    qed
    show ?thesis using True k(1) k1 r le top
      by (simp add: find_active_line_def max_def)
  next
    case False
    have "k = 0"
    proof (rule ccontr)
      assume "k \<noteq> 0"
      then have "0 < k" using k(2) by simp
      then have len: "0 < length lines" using k(3) by (cases lines) auto
      then have "time_s (lines ! 0) \<le> p" using k(4)[rule_format, of 0] \<open>0 < k\<close> by simp
      then show False using False len by blast
    qed
    then have "find_active_line lines p = Inr 0" using k(1) by (simp add: find_active_line_def)
    then show ?thesis unfolding if_not_P[OF False] by simp
  qed
qed

text \<open>The example of the specification: timestamps 0, 2, 2, 5 and position 2.\<close>

theorem find_active_line_largest_witness:
  "sorted (map time_s [\<lparr>time_s = 0, line_text = []\<rparr>, \<lparr>time_s = 2, line_text = []\<rparr>,
                       \<lparr>time_s = 2, line_text = []\<rparr>, \<lparr>time_s = 5, line_text = []\<rparr>]) \<and>
   find_active_line [\<lparr>time_s = 0, line_text = []\<rparr>, \<lparr>time_s = 2, line_text = []\<rparr>,
                     \<lparr>time_s = 2, line_text = []\<rparr>, \<lparr>time_s = 5, line_text = []\<rparr>] 2 = Inr 2"
  using find_active_line_largest[of "[\<lparr>time_s = 0, line_text = []\<rparr>, \<lparr>time_s = 2, line_text = []\<rparr>,
                     \<lparr>time_s = 2, line_text = []\<rparr>, \<lparr>time_s = 5, line_text = []\<rparr>]" 2]
  by (simp add: find_active_line_def find_loop.simps py_index_def)

section \<open>Pipe mode: the list access is in bounds\<close>

text \<open>
  C10. For a non-empty list and any position, \<open>_find_active_line\<close> returns an index
  between 0 and \<open>len(lines) - 1\<close>, so \<open>lines[active_idx]\<close> in \<open>display_pipe\<close> reads an
  element of the list and raises no \<open>IndexError\<close>. When the active index differs
  from the previous one, the text of the active line is printed exactly when it is not
  empty, and the previous index becomes the active index in both cases.
\<close>

theorem display_pipe_index_in_bounds:
  assumes "lines \<noteq> []"
  shows "(\<exists>r. find_active_line lines p = Inr r \<and> 0 \<le> r \<and> r \<le> int (length lines) - 1 \<and>
              py_index lines r = Inr (lines ! nat r)) \<and>
         (\<forall>e. display_pipe_step lines info now_opt previous printed \<noteq> Raise e) \<and>
         (\<forall>now r. title now = title info \<and> artist now = artist info \<and> is_playing now \<and>
                  find_active_line lines (position_s now) = Inr r \<and> r \<noteq> previous \<longrightarrow>
                  display_pipe_step lines info (Some now) previous printed =
                    Continue r (if line_text (lines ! nat r) = [] then printed
                                else printed @ [line_text (lines ! nat r)]))"
proof -
  have range: "\<exists>r. find_active_line lines q = Inr r \<and> 0 \<le> r \<and> r \<le> int (length lines) - 1 \<and>
                 py_index lines r = Inr (lines ! nat r)" for q
  proof -
    obtain r where r: "find_loop lines q 0 (int (length lines) - 1) 0 = Inr r" "0 \<le> r"
        "r < int (length lines)"
      using find_loop_in_range[of 0 "int (length lines) - 1" lines 0 q] assms by auto
    then show ?thesis by (auto simp: find_active_line_def py_index_def)
  qed
  have no_raise: "\<forall>e. display_pipe_step lines info now_opt previous printed \<noteq> Raise e"
  proof (cases now_opt)
    case None
    then show ?thesis by (simp add: display_pipe_step_def)
  next
    case (Some now)
    obtain r where "find_active_line lines (position_s now) = Inr r"
        "py_index lines r = Inr (lines ! nat r)"
      using range[of "position_s now"] by blast
    then show ?thesis using Some by (simp add: display_pipe_step_def)
  qed
  have step: "display_pipe_step lines info (Some now) previous printed =
                Continue r (if line_text (lines ! nat r) = [] then printed
                            else printed @ [line_text (lines ! nat r)])"
    if "title now = title info" "artist now = artist info" "is_playing now"
       "find_active_line lines (position_s now) = Inr r" "r \<noteq> previous" for now r
  proof -
    have "py_index lines r = Inr (lines ! nat r)"
      using range[of "position_s now"] that(4) by auto
    then show ?thesis using that by (simp add: display_pipe_step_def)
  qed
  show ?thesis using range[of p] no_raise step by blast
qed

text \<open>Two lines, the second with an empty text: the first is printed, the second is
  not, and the previous index follows the active index both times.\<close>

theorem display_pipe_index_in_bounds_witness:
  "[\<lparr>time_s = 1, line_text = U ''a''\<rparr>, \<lparr>time_s = 2, line_text = []\<rparr>] \<noteq> [] \<and>
   find_active_line [\<lparr>time_s = 1, line_text = U ''a''\<rparr>, \<lparr>time_s = 2, line_text = []\<rparr>] 0 = Inr 0 \<and>
   display_pipe_step [\<lparr>time_s = 1, line_text = U ''a''\<rparr>, \<lparr>time_s = 2, line_text = []\<rparr>]
      \<lparr>title = U ''t'', artist = U ''b'', album = [], duration_us = 0, position_us = 0,
        player_name = [], is_playing = True\<rparr>
      (Some \<lparr>title = U ''t'', artist = U ''b'', album = [], duration_us = 0, position_us = 1500000,
             player_name = [], is_playing = True\<rparr>) (- 1) [] = Continue 0 [U ''a''] \<and>
   display_pipe_step [\<lparr>time_s = 1, line_text = U ''a''\<rparr>, \<lparr>time_s = 2, line_text = []\<rparr>]
      \<lparr>title = U ''t'', artist = U ''b'', album = [], duration_us = 0, position_us = 0,
        player_name = [], is_playing = True\<rparr>
      (Some \<lparr>title = U ''t'', artist = U ''b'', album = [], duration_us = 0, position_us = 2500000,
             player_name = [], is_playing = True\<rparr>) 0 [U ''a''] = Continue 1 [U ''a'']"
  using display_pipe_index_in_bounds[of "[\<lparr>time_s = 1, line_text = U ''a''\<rparr>, \<lparr>time_s = 2, line_text = []\<rparr>]" 0
      "\<lparr>title = U ''t'', artist = U ''b'', album = [], duration_us = 0, position_us = 0,
        player_name = [], is_playing = True\<rparr>" None 0 "[]"]
  by (simp add: find_active_line_def find_loop.simps py_index_def display_pipe_step_def position_s_def)

section \<open>Properties of the differential writer\<close>

text \<open>The loop over the rows, in closed form: what it appends to the buffer and when
  it sets \<open>changed\<close>.\<close>

lemma diff_rows_eq:
  "diff_rows prev force i cur (buf, ch) =
     (buf @ concat (map (\<lambda>k. [move (i + int k + 1) 1, cur ! k])
                     (filter (\<lambda>k. force \<or> i + int k \<ge> int (length prev) \<or>
                                   prev ! nat (i + int k) \<noteq> cur ! k) [0..<length cur])),
      ch \<or> filter (\<lambda>k. force \<or> i + int k \<ge> int (length prev) \<or>
                        prev ! nat (i + int k) \<noteq> cur ! k) [0..<length cur] \<noteq> [])"
proof (induction cur arbitrary: i buf ch force)
  case Nil
  then show ?case by simp
next
  case (Cons line rest)
  have shift: "[0..<length (line # rest)] = 0 # map Suc [0..<length rest]"
    by (simp add: upt_conv_Cons map_Suc_upt del: upt_Suc)
  have add: "i + 1 + int k = i + int (Suc k)" for k by simp
  show ?case
    unfolding shift
    by (simp add: Cons.IH filter_map comp_def add del: upt_Suc of_nat_Suc)
qed

text \<open>The whole of \<open>_write_diff\<close> in closed form.\<close>

lemma write_diff_closed:
  "write_diff t prev cur force =
     (let emitted = filter (\<lambda>i. force \<or> i \<ge> length prev \<or> prev ! i \<noteq> cur ! i) [0..<length cur]
      in if emitted = [] then (None, t)
         else out_flush (out_write
                (SYNC_START @ concat (map (\<lambda>i. move (int i + 1) 1 @ cur ! i) emitted) @ SYNC_END)
                t))"
proof -
  have cc: "concat (concat (map (\<lambda>k. [move (int k + 1) 1, cur ! k]) ks)) =
            concat (map (\<lambda>i. move (int i + 1) 1 @ cur ! i) ks)" for ks
    by (induction ks) simp_all
  show ?thesis
    by (simp add: write_diff_def diff_rows_eq Let_def cc)
qed

text \<open>
  C2. \<open>_write_diff\<close> emits a row index exactly when \<open>force\<close> is true, or the previous
  frame has no row at that index, or its row there differs from the current row. The
  rows emitted are written in order, each as the cursor-position instruction for its
  row followed by the row content, between the two synchronized-update markers, in one
  \<open>write\<close> followed by one \<open>flush\<close>; when no row is emitted nothing is written and
  nothing is flushed. So a frame diffed against itself without \<open>force\<close> leaves the output
  untouched, and with \<open>force\<close> every row of the current frame is emitted.
\<close>

theorem write_diff_rows:
  "write_diff t prev cur force =
     (let emitted = filter (\<lambda>i. force \<or> i \<ge> length prev \<or> prev ! i \<noteq> cur ! i) [0..<length cur]
      in if emitted = [] then (None, t)
         else out_flush (out_write
                (SYNC_START @ concat (map (\<lambda>i. move (int i + 1) 1 @ cur ! i) emitted) @ SYNC_END)
                t)) \<and>
   write_diff t cur cur False = (None, t) \<and>
   write_diff t prev cur True =
     (if cur = [] then (None, t)
      else out_flush (out_write
             (SYNC_START @ concat (map (\<lambda>i. move (int i + 1) 1 @ cur ! i) [0..<length cur])
              @ SYNC_END) t))"
proof -
  have self: "write_diff t cur cur False = (None, t)"
    by (simp add: write_diff_closed Let_def filter_empty_conv)
  have full: "write_diff t prev cur True =
     (if cur = [] then (None, t)
      else out_flush (out_write
             (SYNC_START @ concat (map (\<lambda>i. move (int i + 1) 1 @ cur ! i) [0..<length cur])
              @ SYNC_END) t))"
    by (simp add: write_diff_closed Let_def)
  show ?thesis using write_diff_closed[of t prev cur force] self full by blast
qed

section \<open>Properties of the frame builders\<close>

text \<open>The padding loop in closed form, the number of rows of a frame, the marker at the
  end of every row, and the rows of the window by their position.\<close>

lemma pad_rows_eq: "pad_rows rows h = rows @ replicate (nat (h - int (length rows))) EL"
proof (induction rows h rule: pad_rows.induct)
  case (1 rows h)
  show ?case
  proof (cases "int (length rows) < h")
    case True
    then have n: "nat (h - int (length rows)) = Suc (nat (h - (1 + int (length rows))))"
      by simp
    show ?thesis
      using "1.IH"[OF True] True
      by (subst pad_rows.simps) (simp add: n)
  next
    case False
    then show ?thesis by (subst pad_rows.simps) simp
  qed
qed

lemma length_build_frame: "length (build_frame lines a now w h) = nat (max h 2)"
  by (simp add: build_frame_def Let_def pad_rows_eq) arith

lemma length_build_status: "length (build_status msg now w h) = nat (max h 2)"
  by (simp add: build_status_def Let_def pad_rows_eq) arith

lemma styled_line_cases:
  "styled_line t d \<in> {BOLD @ FG_WHITE @ t @ RESET @ EL, FG_WHITE @ t @ RESET @ EL,
      FG_CYAN @ t @ RESET @ EL, FG_BLUE @ t @ RESET @ EL, FG_BR_BLACK @ t @ RESET @ EL,
      DIM @ FG_BR_BLACK @ t @ RESET @ EL}"
proof -
  define k where "k = nat (min (max 0 (d - 1)) 5)"
  have "k < 6" by (simp add: k_def)
  then consider "k = 0" | "k = 1" | "k = 2" | "k = 3" | "k = 4" | "k = 5" by linarith
  then show ?thesis
    by cases (simp_all add: styled_line_def GRAD_def Let_def k_def[symmetric])
qed

lemma styled_line_EL: "suffix EL (styled_line t d)"
  using styled_line_cases[of t d]
  by (auto simp: suffix_def)

lemma lyric_row_EL: "suffix EL (lyric_row lines a w st row)"
  by (auto simp: lyric_row_def Let_def active_def intro!: suffix_appendI suffix_ConsI styled_line_EL)

lemma frame_header_EL: "suffix EL (frame_header now w)"
  by (auto simp: frame_header_def Let_def intro!: suffix_appendI suffix_ConsI)

lemma status_row_EL: "suffix EL (status_row msg w m i)"
  by (auto simp: status_row_def intro!: suffix_appendI suffix_ConsI)

lemma build_frame_EL: "list_all (suffix EL) (build_frame lines a now w h)"
  by (simp add: build_frame_def Let_def pad_rows_eq list_all_iff lyric_row_EL frame_header_EL
      image_iff ball_Un)

lemma build_status_EL: "list_all (suffix EL) (build_status msg now w h)"
  by (auto simp: build_status_def Let_def pad_rows_eq list_all_iff status_row_EL
      intro!: suffix_appendI suffix_ConsI)


lemma build_frame_window:
  assumes "0 \<le> row" "row < h - 3"
  shows "build_frame lines a now w h ! (2 + nat row) =
           lyric_row lines a w (a - (h - 3) div 2) row"
proof -
  have len: "length [0..h - 3 - 1] = nat (h - 3)" by simp
  have "build_frame lines a now w h ! (2 + nat row) =
          map (lyric_row lines a w (a - (h - 3) div 2)) [0..h - 3 - 1] ! nat row"
    using assms by (simp add: build_frame_def Let_def pad_rows_eq nth_append)
  also have "\<dots> = lyric_row lines a w (a - (h - 3) div 2) ([0..h - 3 - 1] ! nat row)"
    using assms by (simp del: upto.simps)
  also have "[0..h - 3 - 1] ! nat row = row"
    using assms nth_upto[of 0 "nat row" "h - 3 - 1"] by simp
  finally show ?thesis .
qed

lemma build_frame_last:
  assumes "3 \<le> h"
  shows "build_frame lines a now w h ! nat (h - 1) = EL"
proof -
  have "nat (h - 1) = Suc (Suc (nat (h - 3)))" using assms by simp
  then show ?thesis using assms
    by (simp add: build_frame_def Let_def pad_rows_eq nth_append)
qed

lemma build_status_last:
  assumes "3 \<le> h"
  shows "build_status msg nowo w h ! nat (h - 1) = EL"
proof -
  have "nat (h - 1) = Suc (Suc (nat (h - 3)))" using assms by simp
  then show ?thesis using assms
    by (simp add: build_status_def Let_def pad_rows_eq nth_append)
qed

text \<open>
  C7. In a lyric frame whose window has \<open>available = h - 3 \<ge> 1\<close> rows, for every active
  index inside the line sequence, the highlighted active line stands at offset
  \<open>available // 2\<close> of the window (row \<open>2 + available // 2\<close> of the frame), however many
  lines there are before or after it. Every window position shows the line at the same
  distance from the active index as the position is from that offset; a position whose
  line index falls before 0 or past the end is a blank erase-only row.
\<close>

theorem active_line_offset:
  assumes "1 \<le> h - 3" "0 \<le> a" "a < int (length lines)"
  shows "build_frame lines a now w h ! (2 + nat ((h - 3) div 2)) =
           active (line_text (lines ! nat a)) w \<and>
         (\<forall>row. 0 \<le> row \<and> row < h - 3 \<longrightarrow>
            build_frame lines a now w h ! (2 + nat row) =
              (let lyric_idx = a - (h - 3) div 2 + row in
               if lyric_idx < 0 \<or> int (length lines) \<le> lyric_idx then EL
               else if row = (h - 3) div 2 then active (line_text (lines ! nat a)) w
               else styled_line (center (line_text (lines ! nat lyric_idx)) w)
                      \<bar>row - (h - 3) div 2\<bar>))"
proof -
  have half: "0 \<le> (h - 3) div 2" "(h - 3) div 2 < h - 3" using assms(1) by simp_all
  have act: "build_frame lines a now w h ! (2 + nat ((h - 3) div 2)) =
               active (line_text (lines ! nat a)) w"
    unfolding build_frame_window[OF half] using assms(2,3) by (simp add: lyric_row_def)
  have win: "build_frame lines a now w h ! (2 + nat row) =
              (let lyric_idx = a - (h - 3) div 2 + row in
               if lyric_idx < 0 \<or> int (length lines) \<le> lyric_idx then EL
               else if row = (h - 3) div 2 then active (line_text (lines ! nat a)) w
               else styled_line (center (line_text (lines ! nat lyric_idx)) w)
                      \<bar>row - (h - 3) div 2\<bar>)"
    if "0 \<le> row" "row < h - 3" for row
    unfolding build_frame_window[OF that] by (auto simp: lyric_row_def Let_def)
  show ?thesis using act win by blast
qed

text \<open>Active index 1 of two lines in a window of five rows: the active line is at
  window offset 2, the row before the first line and the rows after the last are blank.\<close>

theorem active_line_offset_witness:
  "(1::int) \<le> 8 - 3 \<and> (0::int) \<le> 1 \<and> (1::int) < int (length example_lines) \<and>
   build_frame example_lines 1 example_now 6 8 ! 4 = active (U ''cdefghijkl'') 6 \<and>
   build_frame example_lines 1 example_now 6 8 ! 2 = EL \<and>
   build_frame example_lines 1 example_now 6 8 ! 3 = styled_line (center (U ''ab'') 6) 1 \<and>
   build_frame example_lines 1 example_now 6 8 ! 5 = EL"
proof -
  have h: "(1::int) \<le> 8 - 3" "(0::int) \<le> 1" "(1::int) < int (length example_lines)"
    by (simp_all add: example_lines_def)
  note t = active_line_offset[OF h, of example_now 6]
  have a: "build_frame example_lines 1 example_now 6 8 ! 4 = active (U ''cdefghijkl'') 6"
    using t by (simp add: example_lines_def)
  have r0: "build_frame example_lines 1 example_now 6 8 ! 2 = EL"
    using t[THEN conjunct2, rule_format, of 0] by (simp add: example_lines_def)
  have r1: "build_frame example_lines 1 example_now 6 8 ! 3 = styled_line (center (U ''ab'') 6) 1"
    using t[THEN conjunct2, rule_format, of 1] by (simp add: example_lines_def)
  have r3: "build_frame example_lines 1 example_now 6 8 ! 5 = EL"
    using t[THEN conjunct2, rule_format, of 3] by (simp add: example_lines_def)
  show ?thesis using h a r0 r1 r3 by simp
qed

text \<open>
  C8, as the claim states it, fails for a terminal of one row: both builders always
  emit the header row and the blank row below it and never drop a row, so the frame
  has two rows.
\<close>

theorem build_frame_rows_counterexample:
  "(0::int) < 1 \<and> (0::int) < 80 \<and>
   length (build_frame example_lines 0 example_now 80 1) = 2 \<and>
   length (build_status MSG_NO_PLAYER None 80 1) = 2 \<and>
   length (build_frame example_lines 0 example_now 80 1) \<noteq> nat 1 \<and>
   length (build_status MSG_NO_PLAYER None 80 1) \<noteq> nat 1"
  by (simp add: length_build_frame length_build_status)

text \<open>
  C8, amended. Both \<open>_build_frame\<close> and \<open>_build_status\<close> return \<open>max(2, rows)\<close>
  rows, that is exactly \<open>rows\<close> rows for every terminal of at least two rows, and every
  row ends in the erase-to-end-of-line marker; from three rows on, the layout yields
  \<open>rows - 1\<close> rows and the padding loop adds the last one, a blank erase-only row.
\<close>

theorem build_frame_rows_amended:
  "length (build_frame lines a now w h) = nat (max 2 h) \<and>
   length (build_status msg nowo w h) = nat (max 2 h) \<and>
   (2 \<le> h \<longrightarrow> length (build_frame lines a now w h) = nat h \<and>
              length (build_status msg nowo w h) = nat h) \<and>
   list_all (suffix EL) (build_frame lines a now w h) \<and>
   list_all (suffix EL) (build_status msg nowo w h) \<and>
   (3 \<le> h \<longrightarrow> build_frame lines a now w h ! nat (h - 1) = EL \<and>
              build_status msg nowo w h ! nat (h - 1) = EL)"
  using length_build_frame[of lines a now w h] length_build_status[of msg nowo w h]
    build_frame_EL[of lines a now w h] build_status_EL[of msg nowo w h]
    build_frame_last[of h lines a now w] build_status_last[of h msg nowo w]
  by (simp add: max_def)

text \<open>Five rows: both frames have five rows and the fifth is the blank row added by
  the padding loop.\<close>

theorem build_frame_rows_amended_witness:
  "(2::int) \<le> 5 \<and> (3::int) \<le> 5 \<and>
   length (build_frame example_lines 0 example_now 6 5) = 5 \<and>
   length (build_status MSG_FETCHING (Some example_now) 6 5) = 5 \<and>
   build_frame example_lines 0 example_now 6 5 ! 4 = EL \<and>
   build_status MSG_FETCHING (Some example_now) 6 5 ! 4 = EL"
  using build_frame_rows_amended[of example_lines 0 example_now 6 5 MSG_FETCHING "Some example_now"]
  by simp

section \<open>Width of the rows\<close>

text \<open>The visible content of the styled rows, for a text that holds no escape
  character, and the two ways of centring.\<close>

lemma visible_plain: "27 \<notin> set t \<Longrightarrow> visible (t @ r) = t @ visible r"
  by (induction t) auto

lemma visible_EL [simp]: "visible (EL @ r) = visible r"
  by (simp add: EL_def ESC_def)

lemma visible_EL0 [simp]: "visible EL = []"
  using visible_EL[of "[]"] by simp

lemma visible_RESET [simp]: "visible (RESET @ r) = visible r"
  by (simp add: RESET_def ESC_def)

lemma visible_styles [simp]:
  "visible (BOLD @ r) = visible r"
  "visible (DIM @ r) = visible r"
  "visible (FG_WHITE @ r) = visible r"
  "visible (FG_CYAN @ r) = visible r"
  "visible (FG_BLUE @ r) = visible r"
  "visible (FG_BR_BLACK @ r) = visible r"
  "visible (FG_BR_WHITE @ r) = visible r"
  "visible (BG_BLUE @ r) = visible r"
  "visible (FG_MAGENTA @ r) = visible r"
  "visible (FG_YELLOW @ r) = visible r"
  by (simp_all add: BOLD_def DIM_def FG_WHITE_def FG_CYAN_def FG_BLUE_def FG_BR_BLACK_def
      FG_BR_WHITE_def BG_BLUE_def FG_MAGENTA_def FG_YELLOW_def ESC_def)

lemma visible_styled_line: "27 \<notin> set t \<Longrightarrow> visible (styled_line t d) = t"
  using styled_line_cases[of t d] by (auto simp: visible_plain)

lemma visible_status: "27 \<notin> set t \<Longrightarrow> visible (FG_BR_BLACK @ t @ RESET @ EL) = t"
  by (simp add: visible_plain)

lemma esc_free_py_center: "27 \<notin> set t \<Longrightarrow> 27 \<notin> set (py_center t w)"
  by (simp add: py_center_def Let_def spaces_def)

lemma esc_free_center: "27 \<notin> set t \<Longrightarrow> 27 \<notin> set (center t w)"
  by (auto simp: center_def slice_to_def spaces_def dest: in_set_takeD)

lemma visible_active: "27 \<notin> set t \<Longrightarrow> visible (active t w) = py_center t w"
  by (simp add: active_def visible_plain esc_free_py_center)

lemma length_center_le: "0 \<le> w \<Longrightarrow> length (center t w) \<le> nat w"
  by (simp add: center_def slice_to_def spaces_def) arith

lemma center_long: "0 \<le> w \<Longrightarrow> w \<le> int (length t) \<Longrightarrow> center t w = take (nat w) t"
  by (simp add: center_def slice_to_def)

lemma center_short: "int (length t) < w \<Longrightarrow>
    center t w = replicate (nat ((w - int (length t)) div 2)) 32 @ t"
  by (simp add: center_def spaces_def)

lemma length_py_center: "int (length t) \<le> w \<Longrightarrow> length (py_center t w) = nat w"
  by (auto simp: py_center_def Let_def spaces_def) 


lemma build_frame_row1: "build_frame lines a now w h ! 1 = EL"
  by (simp add: build_frame_def Let_def pad_rows_eq)

lemma build_frame_tail:
  assumes "2 + nat (h - 3) \<le> i" "i < length (build_frame lines a now w h)"
  shows "build_frame lines a now w h ! i = EL"
proof -
  obtain k where k: "i = 2 + nat (h - 3) + k" using assms(1) by (metis le_Suc_ex)
  have "k < nat (h - int (2 + nat (h - 3)))"
    using assms(2) unfolding k by (simp add: build_frame_def Let_def pad_rows_eq)
  then show ?thesis unfolding k
    by (simp add: build_frame_def Let_def pad_rows_eq nth_append)
qed

lemma lyric_row_visible:
  assumes "0 \<le> w" "\<forall>l\<in>set lines. 27 \<notin> set (line_text l)" "row \<noteq> half"
  shows "visible (lyric_row lines a w (a - half) row) =
           (if a - half + row < 0 \<or> int (length lines) \<le> a - half + row then []
            else center (line_text (lines ! nat (a - half + row))) w)"
proof (cases "a - half + row < 0 \<or> int (length lines) \<le> a - half + row")
  case True
  then show ?thesis by (auto simp: lyric_row_def Let_def)
next
  case False
  then have "nat (a - half + row) < length lines" by linarith
  then have "lines ! nat (a - half + row) \<in> set lines" by (rule nth_mem)
  then have "27 \<notin> set (center (line_text (lines ! nat (a - half + row))) w)"
    using assms(2) esc_free_center by blast
  then show ?thesis using False assms(3)
    by (simp add: lyric_row_def Let_def visible_styled_line)
qed


lemma build_status_rows:
  "set (build_status msg nowo w h) \<subseteq>
     {FG_BR_BLACK @ center (status_header nowo) w @ RESET @ EL, EL,
      FG_BR_BLACK @ center msg w @ RESET @ EL}"
  by (auto simp: build_status_def Let_def pad_rows_eq status_row_def)

lemma build_status_row0:
  "build_status msg nowo w h ! 0 = FG_BR_BLACK @ center (status_header nowo) w @ RESET @ EL"
  by (simp add: build_status_def Let_def pad_rows_eq)

lemma build_frame_row0: "build_frame lines a now w h ! 0 = frame_header now w"
  by (simp add: build_frame_def Let_def pad_rows_eq)

lemma pos_str_example: "pos_str example_now = U ''1:01''"
  by code_simp

lemma dur_str_example: "dur_str example_now = U ''2:05''"
  by code_simp

lemma example_now_identity: "title example_now = U ''T''" "artist example_now = U ''A''"
  by (simp_all add: example_now_def)

lemma frame_header_example: "length (visible (frame_header example_now 6)) = 18"
  by (simp add: frame_header_def header_plain_def pos_str_example dur_str_example
      example_now_identity DASH_SEP_def spaces_def)

lemma status_header_example: "length (visible (build_status MSG_NO_PLAYER None 80 24 ! 0)) = 44"
  by (simp add: build_status_row0 status_header_def center_def spaces_def visible_plain)

text \<open>
  C9, as the claim states it, fails. In a lyric frame for 6 columns a blank row has no
  visible content, the non-active line \<open>ab\<close> is 4 wide (two spaces before it, none
  after), the active line of 10 characters stays 10 wide and the header of 18 characters
  stays 18 wide: neither is cut to the width. The header of a status frame for 80
  columns is 44 wide.
\<close>

theorem rows_width_counterexample:
  "(0::int) < 6 \<and> (0::int) < 8 \<and>
   length (visible (build_frame example_lines 1 example_now 6 8 ! 1)) = 0 \<and>
   length (visible (build_frame example_lines 1 example_now 6 8 ! 3)) = 4 \<and>
   length (visible (build_frame example_lines 1 example_now 6 8 ! 4)) = 10 \<and>
   length (visible (build_frame example_lines 1 example_now 6 8 ! 0)) = 18 \<and>
   length (visible (build_status MSG_NO_PLAYER None 80 24 ! 0)) = 44"
proof -
  have w3: "build_frame example_lines 1 example_now 6 8 ! 3 = styled_line (center (U ''ab'') 6) 1"
    using build_frame_window[of 1 8 example_lines 1 example_now 6]
    by (simp add: lyric_row_def example_lines_def)
  have w4: "build_frame example_lines 1 example_now 6 8 ! 4 = active (U ''cdefghijkl'') 6"
    using build_frame_window[of 2 8 example_lines 1 example_now 6]
    by (simp add: lyric_row_def example_lines_def)
  have c3: "length (visible (styled_line (center (U ''ab'') 6) 1)) = 4"
    by (simp add: visible_styled_line esc_free_center) (simp add: center_def spaces_def)
  have c4: "length (visible (active (U ''cdefghijkl'') 6)) = 10"
    by (simp add: visible_active py_center_def)
  show ?thesis
    unfolding w3 w4 build_frame_row1 build_frame_row0
    using c3 c4 frame_header_example status_header_example by simp
qed

text \<open>The rows of both frames below the header, each by its index, and the padding
  of \<open>str.center\<close>.\<close>

lemma build_status_window:
  assumes "0 \<le> row" "row < h - 3"
  shows "build_status msg nowo w h ! (2 + nat row) = status_row msg w ((h - 3) div 2) row"
proof -
  have "build_status msg nowo w h ! (2 + nat row) =
          map (status_row msg w ((h - 3) div 2)) [0..h - 3 - 1] ! nat row"
    using assms by (simp add: build_status_def Let_def pad_rows_eq nth_append)
  also have "\<dots> = status_row msg w ((h - 3) div 2) ([0..h - 3 - 1] ! nat row)"
    using assms by (simp del: upto.simps)
  also have "[0..h - 3 - 1] ! nat row = row"
    using assms nth_upto[of 0 "nat row" "h - 3 - 1"] by simp
  finally show ?thesis .
qed

lemma build_status_row1: "build_status msg nowo w h ! 1 = EL"
  by (simp add: build_status_def Let_def pad_rows_eq)

lemma build_status_tail:
  assumes "2 + nat (h - 3) \<le> i" "i < length (build_status msg nowo w h)"
  shows "build_status msg nowo w h ! i = EL"
proof -
  obtain k where k: "i = 2 + nat (h - 3) + k" using assms(1) by (metis le_Suc_ex)
  have "k < nat (h - int (2 + nat (h - 3)))"
    using assms(2) unfolding k by (simp add: build_status_def Let_def pad_rows_eq)
  then show ?thesis unfolding k
    by (simp add: build_status_def Let_def pad_rows_eq nth_append)
qed

text \<open>Every row of a status frame below the header, by its index.\<close>

lemma build_status_visible:
  assumes "27 \<notin> set msg" "1 \<le> i" "i < length (build_status msg nowo w h)"
  shows "visible (build_status msg nowo w h ! i) =
           (if 1 \<le> h - 3 \<and> int i = 2 + (h - 3) div 2 then center msg w else [])"
proof -
  consider "i = 1" | "2 \<le> i" "i < 2 + nat (h - 3)" | "2 + nat (h - 3) \<le> i"
    using assms(2) by linarith
  then show ?thesis
  proof cases
    case 1
    have n: "\<not> (1 \<le> h - 3 \<and> int i = 2 + (h - 3) div 2)" using 1 by auto
    have v: "visible (build_status msg nowo w h ! i) = []"
      unfolding 1 build_status_row1 by simp
    show ?thesis unfolding v by (simp only: if_not_P[OF n])
  next
    case 2
    define row where "row = int i - 2"
    have row: "0 \<le> row" "row < h - 3" "i = 2 + nat row" using 2 by (simp_all add: row_def)
    have h: "1 \<le> h - 3" using row by simp
    have eq: "(int i = 2 + (h - 3) div 2) = (row = (h - 3) div 2)" by (auto simp: row_def)
    show ?thesis
      unfolding eq unfolding row(3) build_status_window[OF row(1,2)]
      using h visible_status[OF esc_free_center[OF assms(1), of w]]
      by (simp add: status_row_def)
  next
    case 3
    have n: "\<not> (1 \<le> h - 3 \<and> int i = 2 + (h - 3) div 2)" using 3 by auto
    have v: "visible (build_status msg nowo w h ! i) = []"
      using build_status_tail[OF 3 assms(3)] by simp
    show ?thesis unfolding v by (simp only: if_not_P[OF n])
  qed
qed

text \<open>Every row of a lyric frame below the header, by its index.\<close>

lemma build_frame_visible:
  assumes "\<forall>l\<in>set lines. 27 \<notin> set (line_text l)" "1 \<le> i"
    "i < length (build_frame lines a now w h)"
  shows "visible (build_frame lines a now w h ! i) =
           (let idx = a - (h - 3) div 2 + (int i - 2) in
            if 2 \<le> i \<and> int i - 2 < h - 3 \<and> 0 \<le> idx \<and> idx < int (length lines)
            then (if idx = a then py_center (line_text (lines ! nat a)) w
                  else center (line_text (lines ! nat idx)) w)
            else [])"
proof -
  define idx where "idx = a - (h - 3) div 2 + (int i - 2)"
  have goal: "?thesis \<longleftrightarrow>
          visible (build_frame lines a now w h ! i) =
            (if 2 \<le> i \<and> int i - 2 < h - 3 \<and> 0 \<le> idx \<and> idx < int (length lines)
             then (if idx = a then py_center (line_text (lines ! nat a)) w
                   else center (line_text (lines ! nat idx)) w)
             else [])"
    by (simp only: Let_def idx_def)
  consider "i = 1" | "2 \<le> i" "i < 2 + nat (h - 3)" | "2 + nat (h - 3) \<le> i"
    using assms(2) by linarith
  then have "visible (build_frame lines a now w h ! i) =
            (if 2 \<le> i \<and> int i - 2 < h - 3 \<and> 0 \<le> idx \<and> idx < int (length lines)
             then (if idx = a then py_center (line_text (lines ! nat a)) w
                   else center (line_text (lines ! nat idx)) w)
             else [])"
  proof cases
    case 1
    have n: "\<not> (2 \<le> i \<and> int i - 2 < h - 3 \<and> 0 \<le> idx \<and> idx < int (length lines))"
      using 1 by simp
    have v: "visible (build_frame lines a now w h ! i) = []"
      unfolding 1 build_frame_row1 by simp
    show ?thesis unfolding v by (simp only: if_not_P[OF n])
  next
    case 2
    define row where "row = int i - 2"
    have row: "0 \<le> row" "row < h - 3" "i = 2 + nat row" using 2 by (simp_all add: row_def)
    have idx: "idx = a - (h - 3) div 2 + row" by (simp add: idx_def row_def)
    have win: "build_frame lines a now w h ! i = lyric_row lines a w (a - (h - 3) div 2) row"
      unfolding row(3) by (rule build_frame_window[OF row(1,2)])
    have inwin: "2 \<le> i \<and> int i - 2 < h - 3" using 2 by linarith
    show ?thesis
    proof (cases "0 \<le> idx \<and> idx < int (length lines)")
      case False
      have n: "\<not> (2 \<le> i \<and> int i - 2 < h - 3 \<and> 0 \<le> idx \<and> idx < int (length lines))"
        using False by blast
      have "lyric_row lines a w (a - (h - 3) div 2) row = EL"
        using False unfolding idx by (simp add: lyric_row_def Let_def) linarith
      then have v: "visible (build_frame lines a now w h ! i) = []"
        unfolding win by simp
      show ?thesis unfolding v by (simp only: if_not_P[OF n])
    next
      case True
      have y: "2 \<le> i \<and> int i - 2 < h - 3 \<and> 0 \<le> idx \<and> idx < int (length lines)"
        using True inwin by blast
      have "nat idx < length lines" using True by linarith
      then have mem: "lines ! nat idx \<in> set lines" by (rule nth_mem)
      then have esc: "27 \<notin> set (line_text (lines ! nat idx))" using assms(1) by blast
      show ?thesis
      proof (cases "idx = a")
        case same: True
        have "lyric_row lines a w (a - (h - 3) div 2) row =
                     active (line_text (lines ! nat a)) w"
          using True same unfolding idx by (simp add: lyric_row_def Let_def)
        then have v: "visible (build_frame lines a now w h ! i) =
                        py_center (line_text (lines ! nat a)) w"
          unfolding win using esc same by (simp add: visible_active)
        show ?thesis unfolding v by (simp only: if_P[OF y] if_P[OF same])
      next
        case other: False
        have "lyric_row lines a w (a - (h - 3) div 2) row =
                     styled_line (center (line_text (lines ! nat idx)) w) \<bar>idx - a\<bar>"
          using True other unfolding idx by (simp add: lyric_row_def Let_def)
        then have v: "visible (build_frame lines a now w h ! i) =
                        center (line_text (lines ! nat idx)) w"
          unfolding win using esc by (simp add: visible_styled_line esc_free_center)
        show ?thesis unfolding v by (simp only: if_P[OF y] if_not_P[OF other])
      qed
    qed
  next
    case 3
    have n: "\<not> (2 \<le> i \<and> int i - 2 < h - 3 \<and> 0 \<le> idx \<and> idx < int (length lines))"
      using 3 by auto
    have v: "visible (build_frame lines a now w h ! i) = []"
      using build_frame_tail[OF 3 assms(3)] by simp
    show ?thesis unfolding v by (simp only: if_not_P[OF n])
  qed
  then show ?thesis unfolding goal .
qed

lemma py_center_pads:
  assumes "int (length t) \<le> w"
  shows "(let marg = w - int (length t);
              left = marg div 2 + (if odd marg \<and> odd w then 1 else 0)
          in py_center t w = replicate (nat left) 32 @ t @ replicate (nat (marg - left)) 32 \<and>
             length (py_center t w) = nat w \<and>
             0 \<le> left \<and> left \<le> marg \<and> \<bar>left - (marg - left)\<bar> \<le> 1)"
proof -
  define marg where "marg = w - int (length t)"
  define left where "left = marg div 2 + (if odd marg \<and> odd w then 1 else 0)"
  have m: "0 \<le> marg" using assms by (simp add: marg_def)
  have l: "0 \<le> left" "left \<le> marg" "\<bar>left - (marg - left)\<bar> \<le> 1"
    using m unfolding left_def by (auto elim!: oddE evenE)
  have pc: "py_center t w = replicate (nat left) 32 @ t @ replicate (nat (marg - left)) 32"
  proof (cases "w \<le> int (length t)")
    case True
    then have "marg = 0" using assms by (simp add: marg_def)
    then have "left = 0" by (simp add: left_def)
    then show ?thesis using True \<open>marg = 0\<close> by (simp add: py_center_def)
  next
    case False
    then show ?thesis
      by (simp add: py_center_def Let_def spaces_def marg_def left_def)
  qed
  have len: "length (py_center t w) = nat w" by (rule length_py_center[OF assms])
  from pc l len show ?thesis unfolding Let_def marg_def left_def by blast
qed

text \<open>
  C9, amended. For a width \<open>columns \<ge> 0\<close> and texts without escape characters, the
  visible content of every row is as follows. In a status frame, row 0 is the header
  passed through \<open>_center\<close>; when the window has at least one row
  (\<open>rows - 3 \<ge> 1\<close>) the row at window offset \<open>(rows - 3) // 2\<close> is the message passed
  through \<open>_center\<close>; every other row is blank. In a lyric frame, a window row whose
  line index lies in the list shows that line, the active line through \<open>str.center\<close>
  and any other line through \<open>_center\<close>; every other row below the header is blank.
  \<open>_center\<close> cuts a text of at least \<open>columns\<close> characters to its first \<open>columns\<close>
  characters, and otherwise puts \<open>(columns - len) // 2\<close> spaces before it and none after
  it (the erase marker clears the rest of the row). \<open>str.center\<close> puts
  \<open>marg = columns - len\<close> spaces around a text of at most \<open>columns\<close> characters,
  \<open>marg // 2\<close> of them on the left, one more when \<open>marg\<close> and \<open>columns\<close> are both
  odd, and the rest on the right: the two sides differ by at most one and the row is
  exactly \<open>columns\<close> wide. Hence every row of a status frame, and every row of a lyric
  frame other than its header and its active line, is at most \<open>columns\<close> wide.
\<close>

theorem rows_width_amended:
  assumes "0 \<le> w"
    and "\<forall>l\<in>set lines. 27 \<notin> set (line_text l)"
    and "27 \<notin> set msg" and "27 \<notin> set (status_header nowo)"
  shows
   "visible (build_status msg nowo w h ! 0) = center (status_header nowo) w \<and>
    (\<forall>i. 1 \<le> i \<and> i < length (build_status msg nowo w h) \<longrightarrow>
         visible (build_status msg nowo w h ! i) =
           (if 1 \<le> h - 3 \<and> int i = 2 + (h - 3) div 2 then center msg w else [])) \<and>
    (\<forall>i. 1 \<le> i \<and> i < length (build_frame lines a now w h) \<longrightarrow>
         visible (build_frame lines a now w h ! i) =
           (let idx = a - (h - 3) div 2 + (int i - 2) in
            if 2 \<le> i \<and> int i - 2 < h - 3 \<and> 0 \<le> idx \<and> idx < int (length lines)
            then (if idx = a then py_center (line_text (lines ! nat a)) w
                  else center (line_text (lines ! nat idx)) w)
            else [])) \<and>
    list_all (\<lambda>r. length (visible r) \<le> nat w) (build_status msg nowo w h) \<and>
    (\<forall>i. 1 \<le> i \<and> i < length (build_frame lines a now w h) \<and>
         \<not> (1 \<le> h - 3 \<and> int i = 2 + (h - 3) div 2 \<and> 0 \<le> a \<and> a < int (length lines)) \<longrightarrow>
         length (visible (build_frame lines a now w h ! i)) \<le> nat w) \<and>
    (\<forall>t. center t w =
           (if w \<le> int (length t) then take (nat w) t
            else replicate (nat ((w - int (length t)) div 2)) 32 @ t)) \<and>
    (1 \<le> h - 3 \<and> 0 \<le> a \<and> a < int (length lines) \<longrightarrow>
         visible (build_frame lines a now w h ! (2 + nat ((h - 3) div 2))) =
           py_center (line_text (lines ! nat a)) w) \<and>
    (\<forall>t. int (length t) \<le> w \<longrightarrow>
         (let marg = w - int (length t);
              left = marg div 2 + (if odd marg \<and> odd w then 1 else 0)
          in py_center t w = replicate (nat left) 32 @ t @ replicate (nat (marg - left)) 32 \<and>
             length (py_center t w) = nat w \<and>
             0 \<le> left \<and> left \<le> marg \<and> \<bar>left - (marg - left)\<bar> \<le> 1))"
proof -
  let ?F = "build_frame lines a now w h"
  let ?S = "build_status msg nowo w h"
  let ?half = "(h - 3) div 2"
  have row0: "visible (?S ! 0) = center (status_header nowo) w"
    unfolding build_status_row0 by (rule visible_status[OF esc_free_center[OF assms(4)]])
  have srows: "\<forall>i. 1 \<le> i \<and> i < length ?S \<longrightarrow>
         visible (?S ! i) = (if 1 \<le> h - 3 \<and> int i = 2 + ?half then center msg w else [])"
    using build_status_visible[OF assms(3)] by blast
  have frows: "\<forall>i. 1 \<le> i \<and> i < length ?F \<longrightarrow>
         visible (?F ! i) =
           (let idx = a - ?half + (int i - 2) in
            if 2 \<le> i \<and> int i - 2 < h - 3 \<and> 0 \<le> idx \<and> idx < int (length lines)
            then (if idx = a then py_center (line_text (lines ! nat a)) w
                  else center (line_text (lines ! nat idx)) w)
            else [])"
    using build_frame_visible[OF assms(2)] by blast
  have status: "list_all (\<lambda>r. length (visible r) \<le> nat w) ?S"
    unfolding list_all_length
  proof (intro allI impI)
    fix i assume i: "i < length ?S"
    show "length (visible (?S ! i)) \<le> nat w"
    proof (cases "i = 0")
      case True
      then show ?thesis using row0 length_center_le[OF assms(1)] by simp
    next
      case False
      then have "1 \<le> i" by simp
      then show ?thesis
        using srows i length_center_le[OF assms(1), of msg] by simp
    qed
  qed
  have others: "length (visible (?F ! i)) \<le> nat w"
    if i: "1 \<le> i" "i < length ?F"
      "\<not> (1 \<le> h - 3 \<and> int i = 2 + ?half \<and> 0 \<le> a \<and> a < int (length lines))" for i
  proof -
    define idx where "idx = a - ?half + (int i - 2)"
    have v: "visible (?F ! i) =
            (if 2 \<le> i \<and> int i - 2 < h - 3 \<and> 0 \<le> idx \<and> idx < int (length lines)
             then (if idx = a then py_center (line_text (lines ! nat a)) w
                   else center (line_text (lines ! nat idx)) w)
             else [])"
      using frows i(1,2) by (simp only: Let_def idx_def)
    show ?thesis
    proof (cases "2 \<le> i \<and> int i - 2 < h - 3 \<and> 0 \<le> idx \<and> idx < int (length lines)")
      case False
      show ?thesis unfolding v by (simp only: if_not_P[OF False]) simp
    next
      case True
      have ne: "idx \<noteq> a"
      proof
        assume e: "idx = a"
        then have "int i = 2 + ?half" by (simp add: idx_def)
        moreover have "1 \<le> h - 3" using True by linarith
        moreover have "0 \<le> a \<and> a < int (length lines)" using True e by simp
        ultimately show False using i(3) by blast
      qed
      show ?thesis unfolding v
        by (simp only: if_P[OF True] if_not_P[OF ne]) (rule length_center_le[OF assms(1)])
    qed
  qed
  have cen: "center t w =
           (if w \<le> int (length t) then take (nat w) t
            else replicate (nat ((w - int (length t)) div 2)) 32 @ t)" for t
    using center_long[OF assms(1), of t] center_short[of t w] by simp
  have act: "visible (?F ! (2 + nat ?half)) = py_center (line_text (lines ! nat a)) w"
    if "1 \<le> h - 3" "0 \<le> a" "a < int (length lines)"
  proof -
    have half: "0 \<le> ?half" "?half < h - 3" using that(1) by simp_all
    have mem: "lines ! nat a \<in> set lines" using that(2,3) by simp
    have "?F ! (2 + nat ?half) = active (line_text (lines ! nat a)) w"
      unfolding build_frame_window[OF half] using that(2,3) by (simp add: lyric_row_def)
    then show ?thesis using assms(2) mem by (simp add: visible_active)
  qed
  have pads: "\<forall>t. int (length t) \<le> w \<longrightarrow>
         (let marg = w - int (length t);
              left = marg div 2 + (if odd marg \<and> odd w then 1 else 0)
          in py_center t w = replicate (nat left) 32 @ t @ replicate (nat (marg - left)) 32 \<and>
             length (py_center t w) = nat w \<and>
             0 \<le> left \<and> left \<le> marg \<and> \<bar>left - (marg - left)\<bar> \<le> 1)"
    using py_center_pads by blast
  show ?thesis using row0 srows frows status others cen act pads by blast
qed

text \<open>Six columns and eight rows: the status header \<open>pylyrics\<close> and the message are
  cut to six characters, the message stands at window offset 2, the rows around it are
  blank; the active line \<open>ab\<close> is centred in six characters, the line after it is cut
  to six, the window row before the first line is blank.\<close>

theorem rows_width_amended_witness:
  "(0::int) \<le> 6 \<and> list_all (\<lambda>l. 27 \<notin> set (line_text l)) example_lines \<and>
   27 \<notin> set MSG_NO_PLAYER \<and> 27 \<notin> set (status_header None) \<and>
   visible (build_status MSG_NO_PLAYER None 6 8 ! 0) = U ''pylyri'' \<and>
   visible (build_status MSG_NO_PLAYER None 6 8 ! 4) = U ''No med'' \<and>
   visible (build_status MSG_NO_PLAYER None 6 8 ! 3) = [] \<and>
   visible (build_frame example_lines 0 example_now 6 8 ! 4) = U ''  ab  '' \<and>
   visible (build_frame example_lines 0 example_now 6 8 ! 5) = U ''cdefgh'' \<and>
   visible (build_frame example_lines 0 example_now 6 8 ! 2) = [] \<and>
   center (U ''ab'') 6 = U ''  ab''"
proof -
  have h1: "(0::int) \<le> 6" by simp
  have h2: "\<forall>l\<in>set example_lines. 27 \<notin> set (line_text l)" by (simp add: example_lines_def)
  have h3: "27 \<notin> set MSG_NO_PLAYER" by (simp add: MSG_NO_PLAYER_def)
  have h4: "27 \<notin> set (status_header None)" by (simp add: status_header_def)
  note t = rows_width_amended[OF h1 h2 h3 h4, of 8 0 example_now]
  have c: "center t 6 = (if 6 \<le> int (length t) then take (nat 6) t
            else replicate (nat ((6 - int (length t)) div 2)) 32 @ t)" for t
    using t by blast
  have s: "1 \<le> i \<and> i < length (build_status MSG_NO_PLAYER None 6 8) \<longrightarrow>
         visible (build_status MSG_NO_PLAYER None 6 8 ! i) =
           (if (1::int) \<le> 8 - 3 \<and> int i = 2 + (8 - 3) div 2 then center MSG_NO_PLAYER 6 else [])"
    for i using t by blast
  have f: "1 \<le> i \<and> i < length (build_frame example_lines 0 example_now 6 8) \<longrightarrow>
         visible (build_frame example_lines 0 example_now 6 8 ! i) =
           (let idx = 0 - (8 - 3) div 2 + (int i - 2) in
            if 2 \<le> i \<and> int i - 2 < 8 - 3 \<and> 0 \<le> idx \<and> idx < int (length example_lines)
            then (if idx = 0 then py_center (line_text (example_lines ! nat 0)) 6
                  else center (line_text (example_lines ! nat idx)) 6)
            else [])"
    for i using t by blast
  have p: "int (length t) \<le> 6 \<longrightarrow>
         (let marg = 6 - int (length t);
              left = marg div 2 + (if odd marg \<and> odd (6::int) then 1 else 0)
          in py_center t 6 = replicate (nat left) 32 @ t @ replicate (nat (marg - left)) 32 \<and>
             length (py_center t 6) = nat 6 \<and>
             0 \<le> left \<and> left \<le> marg \<and> \<bar>left - (marg - left)\<bar> \<le> 1)"
    for t using t by blast
  have a: "visible (build_status MSG_NO_PLAYER None 6 8 ! 0) = U ''pylyri''"
    using t c[of "status_header None"] by (simp add: status_header_def)
  have b: "visible (build_status MSG_NO_PLAYER None 6 8 ! 4) = U ''No med''"
    using s[of 4] c[of MSG_NO_PLAYER] by (simp add: length_build_status MSG_NO_PLAYER_def)
  have b3: "visible (build_status MSG_NO_PLAYER None 6 8 ! 3) = []"
    using s[of 3] by (simp add: length_build_status)
  have pc: "py_center (U ''ab'') 6 = U ''  ab  ''"
    using p[of "U ''ab''"] by (simp add: Let_def numeral_2_eq_2)
  have d: "visible (build_frame example_lines 0 example_now 6 8 ! 4) = U ''  ab  ''"
    using f[of 4] pc by (simp add: length_build_frame example_lines_def Let_def)
  have e: "visible (build_frame example_lines 0 example_now 6 8 ! 5) = U ''cdefgh''"
    using f[of 5] c[of "U ''cdefghijkl''"]
    by (simp add: length_build_frame example_lines_def Let_def)
  have g: "visible (build_frame example_lines 0 example_now 6 8 ! 2) = []"
    using f[of 2] by (simp add: length_build_frame example_lines_def Let_def)
  have k: "center (U ''ab'') 6 = U ''  ab''"
    using c[of "U ''ab''"] by (simp add: numeral_eq_Suc)
  show ?thesis using h1 h2 h3 h4 a b b3 d e g k by (simp add: list_all_iff)
qed

section \<open>Properties of the render loop\<close>

text \<open>What the differential writer, the display of a frame and the song-change branch
  do to the terminal and to the state.\<close>

lemma write_diff_same_line:
  "write_diff t prev cur force = (e, t') \<Longrightarrow> same_line t t' \<and> (e \<noteq> None \<longrightarrow> stdout_broken t)"
  by (auto simp: write_diff_closed Let_def out_flush_def out_write_def same_line_def
      split: if_splits)

lemma show_frame_props:
  assumes "show_frame frame st = (e, st')"
  shows "same_line (out st) (out st') \<and> (e \<noteq> None \<longrightarrow> stdout_broken (out st)) \<and>
         fetch_calls st' = fetch_calls st \<and> current_info st' = current_info st \<and>
         previous_idx st' = previous_idx st"
proof -
  obtain e1 t1 where w: "write_diff (out st) (prev_frame st) frame (needs_redraw st) = (e1, t1)"
    by (cases "write_diff (out st) (prev_frame st) frame (needs_redraw st)") auto
  from write_diff_same_line[OF w] assms w show ?thesis
    by (cases e1) (auto simp: show_frame_def)
qed


lemma fetching_frame_nonempty: "build_status msg nowo w h \<noteq> []"
  using length_build_status[of msg nowo w h] by (cases "build_status msg nowo w h") auto

lemma write_diff_full:
  "cur \<noteq> [] \<Longrightarrow> write_diff t prev cur True = out_flush (out_write (frame_dump cur) t)"
  by (simp add: write_diff_closed Let_def frame_dump_def)

lemma song_changed_props:
  assumes "song_changed env now w h st = (e, st')"
  shows "current_info st' = now \<and> previous_idx st' = - 1 \<and>
         same_line (out st) (out st') \<and>
         written (out st') =
           written (out st) @ [frame_dump (build_status MSG_FETCHING (Some now) w h)] \<and>
         (if stdout_broken (out st)
          then e = Some BrokenPipeError \<and> fetch_calls st' = fetch_calls st
          else fetch_calls st' =
                 fetch_calls st @ [(title now, artist now, album now, duration_s now)] \<and>
               prev_frame st' = build_status MSG_FETCHING (Some now) w h \<and>
               flushes (out st') = Suc (flushes (out st)) \<and>
               (case fetched env of
                  Inl x \<Rightarrow> e = Some x
                | Inr r \<Rightarrow> e = None \<and> needs_redraw st' \<and>
                     current_lines st' =
                       (case r of None \<Rightarrow> None
                        | Some ls \<Rightarrow> if ls = [] then None else Some ls)))"
  using assms
  by (auto simp: song_changed_def Let_def write_diff_full[OF fetching_frame_nonempty]
      out_flush_def out_write_def same_line_def split: if_splits sum.splits)


lemma after_sleep_simps [simp]:
  "current_info (after_sleep env st) = current_info st"
  "previous_idx (after_sleep env st) = previous_idx st"
  "fetch_calls (after_sleep env st) = fetch_calls st"
  "current_lines (after_sleep env st) = current_lines st"
  "written (out (after_sleep env st)) = written (out st)"
  "input_mode (out (after_sleep env st)) = input_mode (out st)"
  "stdin_tty (out (after_sleep env st)) = stdin_tty (out st)"
  "stdout_broken (out (after_sleep env st)) = (stdout_broken (out st) \<or> stdout_breaks env)"
  by (simp_all add: after_sleep_def)

lemma tick_unfold:
  "tick env st =
     (case now_playing env of
        Inl e \<Rightarrow> (Some e, after_sleep env st)
      | Inr None \<Rightarrow>
          show_frame (build_status MSG_NO_PLAYER None (fst (term_size (os_term_size env)))
                       (snd (term_size (os_term_size env)))) (after_sleep env st)
      | Inr (Some now) \<Rightarrow>
          if title now \<noteq> title (current_info st) \<or> artist now \<noteq> artist (current_info st)
          then song_changed env now (fst (term_size (os_term_size env)))
                 (snd (term_size (os_term_size env))) (after_sleep env st)
          else (case current_lines st of
                  None \<Rightarrow>
                    show_frame (build_status MSG_NO_LYRICS (Some now)
                                 (fst (term_size (os_term_size env)))
                                 (snd (term_size (os_term_size env)))) (after_sleep env st)
                | Some lines \<Rightarrow>
                    (case find_active_line lines (position_s now) of
                       Inl e \<Rightarrow> (Some e, after_sleep env st)
                     | Inr active_idx \<Rightarrow>
                         (if active_idx \<noteq> previous_idx st \<or> needs_redraw (after_sleep env st)
                          then (case show_frame
                                       (build_frame lines active_idx now
                                          (fst (term_size (os_term_size env)))
                                          (snd (term_size (os_term_size env)))) (after_sleep env st) of
                                  (Some e, s) \<Rightarrow> (Some e, s)
                                | (None, s) \<Rightarrow> (None, s\<lparr>previous_idx := active_idx\<rparr>))
                          else (None, (after_sleep env st)\<lparr>previous_idx := active_idx\<rparr>)))))"
  by (simp add: tick_def Let_def case_prod_beta split: sum.splits option.splits)

text \<open>
  C6. In an iteration of the render loop, the song-change branch is taken exactly when
  the playback source answers with a state whose title or artist differs from the
  stored song identity. Then the stored identity becomes the new state, the previous
  active index is reset to \<open>-1\<close>, the status frame "Fetching lyrics" is written in
  full (every row, whatever was shown before), and \<open>fetch_lyrics\<close> is called with the
  new title, artist, album and duration, after which a full redraw is requested; only
  when the flush of that frame raises does the iteration end before the call. When
  title and artist are the stored ones, whatever the position, and when the source
  returns no state or raises, \<open>fetch_lyrics\<close> is not called and the stored identity
  stays; with no state the previous active index stays as well.
\<close>

theorem song_transition_iff:
  assumes "tick env st = (exc, st')"
  shows
   "(case now_playing env of
       Inr (Some now) \<Rightarrow>
         if title now \<noteq> title (current_info st) \<or> artist now \<noteq> artist (current_info st)
         then current_info st' = now \<and> previous_idx st' = - 1 \<and>
              written (out st') =
                written (out st) @
                [frame_dump (build_status MSG_FETCHING (Some now)
                               (fst (term_size (os_term_size env)))
                               (snd (term_size (os_term_size env))))] \<and>
              (if stdout_broken (out st) \<or> stdout_breaks env
               then exc = Some BrokenPipeError \<and> fetch_calls st' = fetch_calls st
               else fetch_calls st' =
                      fetch_calls st @ [(title now, artist now, album now, duration_s now)] \<and>
                    (exc = None \<longrightarrow> needs_redraw st'))
         else fetch_calls st' = fetch_calls st \<and> current_info st' = current_info st
     | _ \<Rightarrow> fetch_calls st' = fetch_calls st \<and> current_info st' = current_info st \<and>
            previous_idx st' = previous_idx st)"
proof (cases "now_playing env")
  case (Inl e)
  then show ?thesis using assms by (auto simp: tick_unfold)
next
  case (Inr nowo)
  show ?thesis
  proof (cases nowo)
    case None
    then show ?thesis using assms Inr show_frame_props by (fastforce simp: tick_unfold)
  next
    case (Some now)
    show ?thesis
    proof (cases "title now \<noteq> title (current_info st) \<or> artist now \<noteq> artist (current_info st)")
      case True
      then have "song_changed env now (fst (term_size (os_term_size env)))
                 (snd (term_size (os_term_size env))) (after_sleep env st) = (exc, st')"
        using assms Inr Some by (simp add: tick_unfold)
      from song_changed_props[OF this] show ?thesis
        using Inr Some True by (auto split: sum.splits if_splits)
    next
      case False
      have "fetch_calls st' = fetch_calls st \<and> current_info st' = current_info st"
      proof (cases "current_lines st")
        case None
        then show ?thesis using assms Inr Some False show_frame_props
          by (fastforce simp: tick_unfold)
      next
        case (Some lines)
        show ?thesis
        proof (cases "find_active_line lines (position_s now)")
          case (Inl e)
          then show ?thesis using assms Inr \<open>nowo = Some now\<close> False Some
            by (auto simp: tick_unfold)
        next
          case (Inr idx)
          show ?thesis
          proof (cases "idx \<noteq> previous_idx st \<or> needs_redraw (after_sleep env st)")
            case redraw: True
            obtain e1 s1 where sf: "show_frame (build_frame lines idx now
                   (fst (term_size (os_term_size env)))
                   (snd (term_size (os_term_size env)))) (after_sleep env st) = (e1, s1)"
              by (metis surj_pair)
            from show_frame_props[OF sf] show ?thesis
              using assms \<open>now_playing env = Inr nowo\<close> \<open>nowo = Some now\<close> False Some Inr
                redraw sf
              by (cases e1) (auto simp: tick_unfold)
          next
            case noredraw: False
            then show ?thesis
              using assms \<open>now_playing env = Inr nowo\<close> \<open>nowo = Some now\<close> False Some Inr
              by (auto simp: tick_unfold)
          qed
        qed
      qed
      then show ?thesis using Inr Some False by simp
    qed
  qed
qed

text \<open>From the example state: a new title starts a transition; the same song at
  another position and an absent source do not.\<close>

theorem song_transition_iff_witness:
  "fetch_calls (snd (tick (example_env (Some (example_now\<lparr>title := U ''N''\<rparr>))) example_state)) =
     [(U ''N'', U ''A'', [], 125)] \<and>
   previous_idx (snd (tick (example_env (Some (example_now\<lparr>title := U ''N''\<rparr>))) example_state)) = - 1 \<and>
   fetch_calls (snd (tick (example_env (Some (example_now\<lparr>position_us := 0\<rparr>))) example_state)) = [] \<and>
   current_info (snd (tick (example_env (Some (example_now\<lparr>position_us := 0\<rparr>))) example_state)) =
     example_now \<and>
   fetch_calls (snd (tick (example_env None) example_state)) = [] \<and>
   previous_idx (snd (tick (example_env None) example_state)) = 0"
proof -
  have pair: "tick e s = (fst (tick e s), snd (tick e s))" for e s by simp
  have a: "fetch_calls (snd (tick (example_env (Some (example_now\<lparr>title := U ''N''\<rparr>))) example_state)) =
     [(U ''N'', U ''A'', [], 125)] \<and>
   previous_idx (snd (tick (example_env (Some (example_now\<lparr>title := U ''N''\<rparr>))) example_state)) = - 1"
    using song_transition_iff[OF pair, of "example_env (Some (example_now\<lparr>title := U ''N''\<rparr>))" example_state]
    by (simp add: example_env_def example_state_def example_now_def example_terminal_def
        duration_s_def)
  have b: "fetch_calls (snd (tick (example_env (Some (example_now\<lparr>position_us := 0\<rparr>))) example_state)) = [] \<and>
   current_info (snd (tick (example_env (Some (example_now\<lparr>position_us := 0\<rparr>))) example_state)) =
     example_now"
    using song_transition_iff[OF pair, of "example_env (Some (example_now\<lparr>position_us := 0\<rparr>))" example_state]
    by (simp add: example_env_def example_state_def example_now_def)
  have c: "fetch_calls (snd (tick (example_env None) example_state)) = [] \<and>
   previous_idx (snd (tick (example_env None) example_state)) = 0"
    using song_transition_iff[OF pair, of "example_env None" example_state]
    by (simp add: example_env_def example_state_def)
  show ?thesis using a b c by simp
qed

section \<open>Leaving \<open>display_lyrics\<close>\<close>

text \<open>An iteration and the loop leave the input mode alone, only add output, and
  break the output stream only when the world does; the loop ends when an interrupt
  is recorded; after the last two writes of the exit path the cursor is visible.\<close>

lemma tick_same_line:
  assumes "tick env st = (e, st')"
  shows "input_mode (out st') = input_mode (out st) \<and> stdin_tty (out st') = stdin_tty (out st) \<and>
         stdout_broken (out st') = (stdout_broken (out st) \<or> stdout_breaks env) \<and>
         (\<exists>more. written (out st') = written (out st) @ more)"
proof -
  have sf: "input_mode (out s') = input_mode (out st) \<and> stdin_tty (out s') = stdin_tty (out st) \<and>
         stdout_broken (out s') = (stdout_broken (out st) \<or> stdout_breaks env) \<and>
         (\<exists>more. written (out s') = written (out st) @ more)"
    if "show_frame frame (after_sleep env st) = (x, s')" for frame x s'
    using show_frame_props[OF that] by (auto simp: same_line_def)
  have sc: "input_mode (out s') = input_mode (out st) \<and> stdin_tty (out s') = stdin_tty (out st) \<and>
         stdout_broken (out s') = (stdout_broken (out st) \<or> stdout_breaks env) \<and>
         (\<exists>more. written (out s') = written (out st) @ more)"
    if "song_changed env now w h (after_sleep env st) = (x, s')" for now w h x s'
    using song_changed_props[OF that] by (auto simp: same_line_def)
  show ?thesis
  proof (cases "now_playing env")
    case (Inl x)
    then show ?thesis using assms by (auto simp: tick_unfold)
  next
    case (Inr nowo)
    show ?thesis
    proof (cases nowo)
      case None
      then show ?thesis using assms Inr sf by (simp add: tick_unfold)
    next
      case (Some now)
      show ?thesis
      proof (cases "title now \<noteq> title (current_info st) \<or> artist now \<noteq> artist (current_info st)")
        case True
        then show ?thesis using assms Inr Some sc by (simp add: tick_unfold)
      next
        case False
        show ?thesis
        proof (cases "current_lines st")
          case None
          then show ?thesis using assms Inr Some False sf by (simp add: tick_unfold)
        next
          case (Some lines)
          show ?thesis
          proof (cases "find_active_line lines (position_s now)")
            case (Inl x)
            then show ?thesis using assms \<open>now_playing env = Inr nowo\<close> \<open>nowo = Some now\<close> False Some
              by (auto simp: tick_unfold)
          next
            case (Inr idx)
            obtain e1 s1 where s1: "show_frame (build_frame lines idx now
                   (fst (term_size (os_term_size env)))
                   (snd (term_size (os_term_size env)))) (after_sleep env st) = (e1, s1)"
              by (metis surj_pair)
            from sf[OF s1] show ?thesis
              using assms \<open>now_playing env = Inr nowo\<close> \<open>nowo = Some now\<close> False Some Inr s1
              by (cases e1) (auto simp: tick_unfold split: if_splits)
          qed
        qed
      qed
    qed
  qed
qed

lemma run_loop_same_line:
  "run_loop world st = Some (e, st') \<Longrightarrow>
   input_mode (out st') = input_mode (out st) \<and> stdin_tty (out st') = stdin_tty (out st) \<and>
   (stdout_broken (out st') \<longrightarrow> stdout_broken (out st) \<or> list_ex stdout_breaks world) \<and>
   (\<exists>more. written (out st') = written (out st) @ more)"
proof (induction world arbitrary: st)
  case Nil
  then show ?case by simp
next
  case (Cons env rest)
  show ?case
  proof (cases "sigint env")
    case True
    then show ?thesis using Cons.prems by auto
  next
    case False
    obtain x s1 where t: "tick env st = (x, s1)" by (metis surj_pair)
    note p = tick_same_line[OF t]
    show ?thesis
    proof (cases x)
      case None
      then have "run_loop rest s1 = Some (e, st')" using Cons.prems False t by simp
      from Cons.IH[OF this] p show ?thesis by auto
    next
      case (Some err)
      then have "st' = s1" using Cons.prems False t by simp
      then show ?thesis using p by auto
    qed
  qed
qed

lemma run_loop_ends: "list_ex sigint world \<Longrightarrow> run_loop world st \<noteq> None"
proof (induction world arbitrary: st)
  case Nil
  then show ?case by simp
next
  case (Cons env rest)
  obtain x s1 where t: "tick env st = (x, s1)" by (metis surj_pair)
  show ?case
  proof (cases "sigint env")
    case True
    then show ?thesis by simp
  next
    case False
    then have "list_ex sigint rest" using Cons.prems by simp
    from Cons.IH[OF this] show ?thesis using False t by (cases x) auto
  qed
qed

lemma cursor_after_show: "cursor_after v (xs @ SHOW_CURSOR @ CLEAR)"
proof (induction xs arbitrary: v)
  case Nil
  show ?case by (simp add: SHOW_CURSOR_def CLEAR_def ESC_def HIDE_CURSOR_def)
next
  case (Cons c cs)
  then show ?case by simp
qed

text \<open>
  As long as the output stream works, every exit of \<open>display_lyrics\<close> restores the
  terminal: on a return after an interrupt and on an exception of a collaborator
  alike, the input mode is the one found on entry, the last two writes show the cursor
  and clear the screen, and the cursor is visible whatever was written before. A
  record of the world that holds an interrupt ends the function.
\<close>

lemma try_block_props:
  assumes "try_block lines info world t = Some (exc, t1)"
  shows "input_mode t1 = input_mode t \<and> stdin_tty t1 = stdin_tty t \<and>
         (stdout_broken t1 \<longrightarrow> stdout_broken t \<or> list_ex stdout_breaks world) \<and>
         (\<exists>more. written t1 = written t @ [HIDE_CURSOR, CLEAR] @ more)"
proof (cases "stdout_broken t")
  case True
  then show ?thesis using assms
    by (auto simp: try_block_def out_flush_def out_write_def)
next
  case False
  define t2 where "t2 = (out_write CLEAR (out_write HIDE_CURSOR t))
                          \<lparr>flushes := Suc (flushes (out_write CLEAR (out_write HIDE_CURSOR t)))\<rparr>"
  define st0 where "st0 = \<lparr>current_lines = lines, current_info = info,
                          previous_idx = - 1, prev_frame = [], needs_redraw = True,
                          out = t2, fetch_calls = []\<rparr>"
  have fl: "out_flush (out_write CLEAR (out_write HIDE_CURSOR t)) = (None, t2)"
    using False by (simp add: out_flush_def out_write_def t2_def)
  have "(case run_loop world st0 of None \<Rightarrow> None | Some (e, s) \<Rightarrow> Some (e, out s)) =
          Some (exc, t1)"
    using assms unfolding try_block_def fl by (simp add: st0_def)
  then obtain st where loop: "run_loop world st0 = Some (exc, st)" and t1: "t1 = out st"
    by (cases "run_loop world st0") auto
  have t2: "input_mode t2 = input_mode t" "stdin_tty t2 = stdin_tty t"
      "stdout_broken t2 = stdout_broken t" "written t2 = written t @ [HIDE_CURSOR, CLEAR]"
    by (simp_all add: t2_def out_write_def)
  from run_loop_same_line[OF loop] t2 show ?thesis
    by (auto simp: t1 st0_def)
qed

lemma try_block_ends: "list_ex sigint world \<Longrightarrow> try_block lines info world t \<noteq> None"
proof -
  assume w: "list_ex sigint world"
  show ?thesis
  proof (cases "stdout_broken t")
    case True
    then show ?thesis by (simp add: try_block_def out_flush_def out_write_def)
  next
    case False
    then show ?thesis using run_loop_ends[OF w]
      by (auto simp: try_block_def out_flush_def out_write_def split: option.splits prod.splits)
  qed
qed

lemma restore_intact:
  "\<not> stdout_broken t \<Longrightarrow>
   restore saved exc t =
     (exc, (case saved of Some a \<Rightarrow> tcsetattr a | None \<Rightarrow> (\<lambda>x. x))
             ((out_write CLEAR (out_write SHOW_CURSOR t))
                \<lparr>flushes := Suc (flushes t)\<rparr>))"
  by (simp add: restore_def out_flush_def out_write_def split: option.splits)

lemma restore_broken:
  "stdout_broken t \<Longrightarrow>
   restore saved exc t = (Some BrokenPipeError, out_write CLEAR (out_write SHOW_CURSOR t))"
  by (simp add: restore_def out_flush_def out_write_def)

lemma display_lyrics_restores_intact:
  assumes "\<not> stdout_broken t" "\<not> list_ex stdout_breaks world"
    and "display_lyrics lines info world t = Some (exc, t')"
  shows "input_mode t' = input_mode t \<and>
         (\<exists>mid. written t' = written t @ [HIDE_CURSOR, CLEAR] @ mid @ [SHOW_CURSOR, CLEAR]) \<and>
         cursor_after v (concat (written t'))"
proof -
  define saved where "saved = (case tcgetattr t of Inr a \<Rightarrow> Some a | Inl e \<Rightarrow> None)"
  define t0 where "t0 = (if saved \<noteq> None then setcbreak t else t)"
  have eq: "display_lyrics lines info world t =
          (case try_block lines info world t0 of None \<Rightarrow> None
           | Some (e, t1) \<Rightarrow> Some (restore saved e t1))"
    unfolding saved_def t0_def by (simp add: display_lyrics_def Let_def)
  from assms(3)[unfolded eq] obtain x t1 where tb: "try_block lines info world t0 = Some (x, t1)"
    and res: "(exc, t') = restore saved x t1"
    by (cases "try_block lines info world t0") auto
  have t0: "stdout_broken t0 = stdout_broken t" "written t0 = written t"
    by (simp_all add: t0_def setcbreak_def)
  from try_block_props[OF tb] assms(1,2) t0 obtain more where
    inv: "input_mode t1 = input_mode t0" "\<not> stdout_broken t1"
      "written t1 = written t @ [HIDE_CURSOR, CLEAR] @ more"
    by auto
  have t': "t' = (case saved of Some a \<Rightarrow> tcsetattr a | None \<Rightarrow> (\<lambda>x. x))
             ((out_write CLEAR (out_write SHOW_CURSOR t1))\<lparr>flushes := Suc (flushes t1)\<rparr>)"
    using res restore_intact[OF inv(2), of saved x] by simp
  have wr: "written t' = written t @ [HIDE_CURSOR, CLEAR] @ more @ [SHOW_CURSOR, CLEAR]"
    using inv(3) by (simp add: t' out_write_def tcsetattr_def split: option.splits)
  have mode: "input_mode t' = input_mode t"
  proof (cases "stdin_tty t")
    case True
    then have "saved = Some (input_mode t)" by (simp add: saved_def tcgetattr_def)
    then show ?thesis by (simp add: t' tcsetattr_def)
  next
    case False
    then have s: "saved = None" by (simp add: saved_def tcgetattr_def)
    then have "input_mode t0 = input_mode t" by (simp add: t0_def)
    then show ?thesis using s inv(1) by (simp add: t' out_write_def)
  qed
  have "concat (written t') =
          concat (written t @ [HIDE_CURSOR, CLEAR] @ more) @ SHOW_CURSOR @ CLEAR"
    by (simp add: wr)
  then have cur: "cursor_after v (concat (written t'))" by (simp only: cursor_after_show)
  show ?thesis using mode wr cur by blast
qed

lemma display_lyrics_ends:
  "list_ex sigint world \<Longrightarrow> display_lyrics lines info world t \<noteq> None"
proof -
  assume w: "list_ex sigint world"
  define saved where "saved = (case tcgetattr t of Inr a \<Rightarrow> Some a | Inl e \<Rightarrow> None)"
  define t0 where "t0 = (if saved \<noteq> None then setcbreak t else t)"
  have "try_block lines info world t0 \<noteq> None" by (rule try_block_ends[OF w])
  then obtain r where "try_block lines info world t0 = Some r" by blast
  moreover have "display_lyrics lines info world t =
          (case try_block lines info world t0 of None \<Rightarrow> None
           | Some (e, t1) \<Rightarrow> Some (restore saved e t1))"
    unfolding saved_def t0_def by (simp add: display_lyrics_def Let_def)
  ultimately show ?thesis by (cases r) simp
qed

text \<open>
  C5. The claim: every exit of \<open>display_lyrics\<close>, by return, interrupt or an error
  raised in the loop body, shows the cursor, clears the screen and, when the input is
  a terminal, restores the input mode saved on entry. The code does not keep it when
  the error of the loop body is a failed flush of the output: with the input a terminal
  and the reader of the output gone during the first sleep, the flush of the first
  frame raises \<open>BrokenPipeError\<close>; in the \<open>finally\<close> block the flush after the two
  writes raises again, and \<open>termios.tcsetattr\<close>, which stands after it, is not reached.
  The function ends with the exception and the terminal is left in cbreak mode without
  echo.
\<close>

theorem display_lyrics_broken_pipe:
  "map_option fst (display_lyrics None example_now [reader_gone] example_terminal) =
     Some (Some BrokenPipeError) \<and>
   map_option (input_mode \<circ> snd) (display_lyrics None example_now [reader_gone] example_terminal) =
     Some \<lparr>echo = False, icanon = False, vmin = 1, vtime = 0, other_flags = 0\<rparr> \<and>
   input_mode example_terminal =
     \<lparr>echo = True, icanon = True, vmin = 1, vtime = 0, other_flags = 0\<rparr> \<and>
   stdin_tty example_terminal"
  by (simp add: display_lyrics_def try_block_def Let_def example_terminal_def reader_gone_def
      tcgetattr_def setcbreak_def out_flush_def out_write_def tick_unfold after_sleep_def
      show_frame_def write_diff_full[OF fetching_frame_nonempty] restore_def)

section \<open>Properties of the LRC parser\<close>

text \<open>The groups of a match are strings of decimal digits of the lengths the
  pattern allows, so none of the three conversions to an integer raises.\<close>

lemma first_match_Some: "first_match alts = Some r \<Longrightarrow> Some r \<in> set alts"
  by (induction alts rule: first_match.induct) auto

lemma digits_at_take: "digits_at dv n s \<Longrightarrow> length (take n s) = n \<and> list_all (is_digit dv) (take n s)"
  by (simp add: digits_at_def)

lemma after_frac_Some: "after_frac g1 g2 g3 s = Some G \<Longrightarrow> \<exists>g4. G = (g1, g2, g3, g4)"
  by (auto simp: after_frac_def split: list.splits if_splits)

lemma with_frac_Some:
  assumes "with_frac dv g1 g2 s k = Some G" "1 \<le> k" "k \<le> 3"
  shows "\<exists>g3 g4. G = (g1, g2, g3, g4) \<and> frac_ok dv g3"
proof -
  obtain c r where s: "s = c # r" and d: "digits_at dv k r"
    and a: "after_frac g1 g2 (Some (take k r)) (drop k r) = Some G"
    using assms(1) by (auto simp: with_frac_def split: list.splits if_splits)
  from after_frac_Some[OF a] digits_at_take[OF d] assms(2,3) show ?thesis
    by (auto simp: frac_ok_def)
qed

lemma after_seconds_Some:
  assumes "after_seconds dv g1 g2 s = Some G"
  shows "\<exists>g3 g4. G = (g1, g2, g3, g4) \<and> frac_ok dv g3"
proof -
  from first_match_Some[OF assms[unfolded after_seconds_def]]
  consider "with_frac dv g1 g2 s 3 = Some G" | "with_frac dv g1 g2 s 2 = Some G"
    | "with_frac dv g1 g2 s 1 = Some G" | "after_frac g1 g2 None s = Some G"
    by auto
  then show ?thesis
  proof cases
    case 1 then show ?thesis using with_frac_Some[of dv g1 g2 s 3 G] by simp
  next
    case 2 then show ?thesis using with_frac_Some[of dv g1 g2 s 2 G] by simp
  next
    case 3 then show ?thesis using with_frac_Some[of dv g1 g2 s 1 G] by simp
  next
    case 4 then show ?thesis using after_frac_Some[of g1 g2 None s G] by (auto simp: frac_ok_def)
  qed
qed

lemma after_minutes_Some:
  assumes "after_minutes dv g1 s = Some G"
  shows "\<exists>g2 g3 g4. G = (g1, g2, g3, g4) \<and> length g2 = 2 \<and> list_all (is_digit dv) g2 \<and>
           frac_ok dv g3"
proof -
  obtain c r where d: "digits_at dv 2 r"
    and a: "after_seconds dv g1 (take 2 r) (drop 2 r) = Some G"
    using assms by (auto simp: after_minutes_def split: list.splits if_splits)
  from after_seconds_Some[OF a] digits_at_take[OF d] show ?thesis by auto
qed

lemma with_minutes_Some:
  assumes "with_minutes dv s n = Some G" "1 \<le> n" "n \<le> 2"
  shows "\<exists>g1 g2 g3 g4. G = (g1, g2, g3, g4) \<and> 1 \<le> length g1 \<and> length g1 \<le> 2 \<and>
           list_all (is_digit dv) g1 \<and> length g2 = 2 \<and> list_all (is_digit dv) g2 \<and>
           frac_ok dv g3"
proof -
  have d: "digits_at dv n s" and a: "after_minutes dv (take n s) (drop n s) = Some G"
    using assms(1) by (auto simp: with_minutes_def split: if_splits)
  from after_minutes_Some[OF a] digits_at_take[OF d] assms(2,3) show ?thesis by auto
qed

lemma pattern_match_Some:
  assumes "pattern_match dv s = Some (g1, g2, g3, g4)"
  shows "1 \<le> length g1 \<and> length g1 \<le> 2 \<and> list_all (is_digit dv) g1 \<and>
         length g2 = 2 \<and> list_all (is_digit dv) g2 \<and> frac_ok dv g3"
proof -
  obtain c r where "first_match (map (with_minutes dv r) [2, 1]) = Some (g1, g2, g3, g4)"
    using assms by (auto simp: pattern_match_def split: list.splits if_splits)
  from first_match_Some[OF this]
  consider "with_minutes dv r 2 = Some (g1, g2, g3, g4)"
    | "with_minutes dv r 1 = Some (g1, g2, g3, g4)"
    by auto
  then show ?thesis
  proof cases
    case 1 then show ?thesis using with_minutes_Some[of dv r 2] by auto
  next
    case 2 then show ?thesis using with_minutes_Some[of dv r 1] by auto
  qed
qed

lemma ascii_digits_zero: "ascii_digits dv \<Longrightarrow> dv 48 = Some 0"
  by (simp add: ascii_digits_def upt_rec[of 48] list_all_iff)

lemma py_int_digits:
  "s \<noteq> [] \<Longrightarrow> list_all (is_digit dv) s \<Longrightarrow> py_int dv s = Inr (int (digits_value dv s))"
  by (simp add: py_int_def)

lemma frac_field_digits:
  assumes "ascii_digits dv" "frac_ok dv g3"
  shows "take 3 (ljust (case g3 of Some f \<Rightarrow> f | None \<Rightarrow> U ''0'') 3 48) = frac_field g3 \<and>
         frac_field g3 \<noteq> [] \<and> list_all (is_digit dv) (frac_field g3)"
proof -
  have z: "is_digit dv 48" using ascii_digits_zero[OF assms(1)] by (simp add: is_digit_def)
  show ?thesis
  proof (cases g3)
    case None
    then show ?thesis using z by (simp add: frac_field_def ljust_def numeral_eq_Suc)
  next
    case (Some f)
    then have f: "1 \<le> length f" "length f \<le> 3" "list_all (is_digit dv) f"
      using assms(2) by (simp_all add: frac_ok_def)
    then have "f \<noteq> []" by auto
    then show ?thesis using Some f z
      by (auto simp: frac_field_def ljust_def list_all_iff)
  qed
qed

lemma parse_line_total:
  assumes "ascii_digits dv"
  shows "parse_line dv raw =
           Inr (map_option (line_of_groups dv) (pattern_match dv (strip raw)))"
proof (cases "pattern_match dv (strip raw)")
  case None
  then show ?thesis by (simp add: parse_line_def)
next
  case (Some g)
  obtain g1 g2 g3 g4 where g: "g = (g1, g2, g3, g4)" by (cases g) auto
  note m = pattern_match_Some[OF Some[unfolded g]]
  have g1: "g1 \<noteq> []" and g2: "g2 \<noteq> []" using m by auto
  note ff = frac_field_digits[OF assms, of g3]
  have i1: "py_int dv g1 = Inr (int (digits_value dv g1))" using py_int_digits g1 m by blast
  have i2: "py_int dv g2 = Inr (int (digits_value dv g2))" using py_int_digits g2 m by blast
  have i3: "py_int dv (frac_field g3) = Inr (int (digits_value dv (frac_field g3)))"
    using py_int_digits ff m by blast
  show ?thesis
    using Some g i1 i2 i3 ff m
    by (simp add: parse_line_def line_of_groups_def Let_def)
qed

lemma parse_lines_total:
  assumes "ascii_digits dv"
  shows "parse_lines dv raws acc =
           Inr (acc @ map (\<lambda>raw. line_of_groups dv (the (pattern_match dv (strip raw))))
                        (filter (matching dv) raws))"
proof (induction raws arbitrary: acc)
  case Nil
  show ?case by simp
next
  case (Cons raw rest)
  show ?case
    by (cases "pattern_match dv (strip raw)")
       (auto simp: parse_line_total[OF assms] Cons.IH matching_def)
qed

lemma parse_lrc_total:
  "ascii_digits dv \<Longrightarrow> parse_lrc dv txt = Inr (sort_key time_s (parsed_in_order dv txt))"
  by (simp add: parse_lrc_def parse_lines_total parsed_in_order_def)

lemma trimmed_strip: "trimmed (strip s)"
proof (cases "strip s = []")
  case True
  then show ?thesis by (simp add: trimmed_def)
next
  case False
  define a where "a = dropWhile is_space s"
  define b where "b = dropWhile is_space (rev a)"
  have s: "strip s = rev b" by (simp add: strip_def a_def b_def)
  have b: "b \<noteq> []" using False s by simp
  then have ra: "rev a \<noteq> []" by (auto simp: b_def)
  then have a: "a \<noteq> []" by simp
  have "\<not> is_space (hd b)" using b unfolding b_def by (rule hd_dropWhile)
  then have l: "\<not> is_space (last (strip s))" using b by (simp add: s last_rev)
  have "\<not> is_space (hd a)" using a unfolding a_def by (rule hd_dropWhile)
  moreover have "last b = last (rev a)"
    using b unfolding b_def
    by (metis last_appendR takeWhile_dropWhile_id)
  ultimately have "\<not> is_space (last b)" using a by (simp add: last_rev)
  then have h: "\<not> is_space (hd (strip s))" using b by (simp add: s hd_rev)
  show ?thesis using l h by (simp add: trimmed_def)
qed

lemmas parser_eval = pattern_match_def with_minutes_def digits_at_def is_digit_def ascii_dv_def
  after_minutes_def after_seconds_def with_frac_def after_frac_def after_bracket_def strip_def
  is_space_def

lemma digits_value_pad:
  assumes "dv 48 = Some 0"
  shows "digits_value dv (f @ replicate n 48) = digits_value dv f * 10 ^ n"
proof -
  have "foldl (\<lambda>n c. 10 * n + the (dv c)) m (replicate n 48) = m * 10 ^ n" for m
    using assms by (induction n arbitrary: m) simp_all
  then show ?thesis by (simp add: digits_value_def)
qed

lemma ascii_digits_five: "ascii_digits dv \<Longrightarrow> dv 53 = Some 5"
  by (simp add: ascii_digits_def list_all_iff)

lemma ascii_digits_ascii_dv: "ascii_digits ascii_dv"
  by (simp add: ascii_digits_def ascii_dv_def list_all_iff)

text \<open>
  C3. For every line that matches with a fractional field of fewer than three digits,
  \<open>parse_lrc\<close> converts the field after filling it with zeros on the right to three
  digits: the fraction is the value of the field times \<open>10 ^ (3 - length)\<close>
  thousandths of a second. A field \<open>5\<close> gives 500 thousandths, half a second, whatever
  the minutes and seconds.
\<close>

theorem parse_line_fraction_padded:
  assumes "ascii_digits dv"
    and "pattern_match dv (strip raw_line) = Some (g1, g2, Some f, g4)"
    and "length f < 3"
  shows "parse_line dv raw_line =
           Inr (Some \<lparr>time_s = of_nat (digits_value dv g1 * 60 + digits_value dv g2)
                               + of_nat (digits_value dv f * 10 ^ (3 - length f)) / 1000,
                      line_text = strip g4\<rparr>) \<and>
         (f = U ''5'' \<longrightarrow>
            parse_line dv raw_line =
              Inr (Some \<lparr>time_s = of_nat (digits_value dv g1 * 60 + digits_value dv g2) + 1 / 2,
                         line_text = strip g4\<rparr>))"
proof -
  have pad: "digits_value dv (frac_field (Some f)) = digits_value dv f * 10 ^ (3 - length f)"
    using digits_value_pad[of dv f "3 - length f", OF ascii_digits_zero[OF assms(1)]]
    by (simp add: frac_field_def)
  have gen: "parse_line dv raw_line =
           Inr (Some \<lparr>time_s = of_nat (digits_value dv g1 * 60 + digits_value dv g2)
                               + of_nat (digits_value dv f * 10 ^ (3 - length f)) / 1000,
                      line_text = strip g4\<rparr>)"
    using assms(2) pad by (simp add: parse_line_total[OF assms(1)] line_of_groups_def)
  have five: "digits_value dv (U ''5'') = 5"
    using ascii_digits_five[OF assms(1)] by (simp add: digits_value_def)
  show ?thesis using gen five by auto
qed

text \<open>The line \<open>[03:07.5] la\<close> between spaces: 187.5 seconds.\<close>

theorem parse_line_fraction_padded_witness:
  "ascii_digits ascii_dv \<and>
   pattern_match ascii_dv (strip (U '' [03:07.5] la '')) =
     Some (U ''03'', U ''07'', Some (U ''5''), U ''la'') \<and>
   length (U ''5'') < 3 \<and>
   parse_line ascii_dv (U '' [03:07.5] la '') =
     Inr (Some \<lparr>time_s = 375 / 2, line_text = U ''la''\<rparr>)"
proof -
  have m: "pattern_match ascii_dv (strip (U '' [03:07.5] la '')) =
     Some (U ''03'', U ''07'', Some (U ''5''), U ''la'')"
    by (simp add: parser_eval)
  have l: "length (U ''5'') < 3" by simp
  have v: "digits_value ascii_dv (U ''03'') = 3" "digits_value ascii_dv (U ''07'') = 7"
    by (simp_all add: digits_value_def ascii_dv_def)
  have s: "strip (U ''la'') = U ''la''" by (simp add: strip_def is_space_def)
  have "parse_line ascii_dv (U '' [03:07.5] la '') =
          Inr (Some \<lparr>time_s = of_nat (digits_value ascii_dv (U ''03'') * 60
                                         + digits_value ascii_dv (U ''07'')) + 1 / 2,
                     line_text = strip (U ''la'')\<rparr>)"
    using parse_line_fraction_padded[OF ascii_digits_ascii_dv m l] by blast
  then have p: "parse_line ascii_dv (U '' [03:07.5] la '') =
     Inr (Some \<lparr>time_s = 375 / 2, line_text = U ''la''\<rparr>)"
    unfolding v s by simp
  show ?thesis using ascii_digits_ascii_dv m l p by blast
qed

text \<open>
  C4. For every text, \<open>parse_lrc\<close> returns a list and raises nothing. The list has one
  line for each line of the text that matches the pattern; the other lines are skipped,
  and the empty text gives the empty list. It is the list of the lines
  \<open>time_s = minutes * 60 + seconds + fraction\<close> with stripped text, taken in the order
  of the text, sorted by \<open>time_s\<close>: it is non-decreasing in \<open>time_s\<close>, holds the same
  lines, and for every time the lines of that time stand in the order of the text.
  Every text in it is trimmed.
\<close>

theorem parse_lrc_sorted_stable:
  assumes "ascii_digits dv"
  shows "(\<exists>ls. parse_lrc dv lrc_text = Inr ls \<and>
            length ls = length (filter (matching dv) (splitlines lrc_text)) \<and>
            sorted (map time_s ls) \<and>
            set ls = set (parsed_in_order dv lrc_text) \<and>
            (\<forall>t. filter (\<lambda>l. time_s l = t) ls =
                 filter (\<lambda>l. time_s l = t) (parsed_in_order dv lrc_text)) \<and>
            list_all (\<lambda>l. trimmed (line_text l)) ls) \<and>
         parse_lrc dv [] = Inr []"
proof -
  let ?ls = "sort_key time_s (parsed_in_order dv lrc_text)"
  have r: "parse_lrc dv lrc_text = Inr ?ls" by (rule parse_lrc_total[OF assms])
  have len: "length ?ls = length (filter (matching dv) (splitlines lrc_text))"
    by (simp add: parsed_in_order_def)
  have srt: "sorted (map time_s ?ls)" by (rule sorted_sort_key)
  have st: "\<forall>t. filter (\<lambda>l. time_s l = t) ?ls =
              filter (\<lambda>l. time_s l = t) (parsed_in_order dv lrc_text)"
    by (simp add: sort_key_stable)
  have tr: "list_all (\<lambda>l. trimmed (line_text l)) ?ls"
    by (auto simp: list_all_iff parsed_in_order_def line_of_groups_def trimmed_strip
        split: prod.splits)
  have e: "parse_lrc dv [] = Inr []"
    by (simp add: parse_lrc_def splitlines.simps)
  show ?thesis using r len srt st tr e by simp
qed

lemma replicate_small: "replicate 1 x = [x]" "replicate 2 x = [x, x]"
  by (simp_all add: numeral_2_eq_2)

lemma splitlines_example:
  "splitlines (U ''[00:02] c'' @ [10] @ U ''junk'' @ [10] @ U ''[00:01.5] a'' @ [13, 10]
               @ U ''  [0:01:500]   b  '') =
   [U ''[00:02] c'', U ''junk'', U ''[00:01.5] a'', U ''  [0:01:500]   b  '']"
  by (simp add: splitlines.simps is_linebreak_def)

text \<open>Four raw lines, one of them no lyric line, two with the same time, the
  earliest last: three lines come back, sorted, the two equal ones in input order.\<close>

theorem parse_lrc_sorted_stable_witness:
  "ascii_digits ascii_dv \<and>
   parse_lrc ascii_dv (U ''[00:02] c'' @ [10] @ U ''junk'' @ [10] @ U ''[00:01.5] a'' @ [13, 10]
                       @ U ''  [0:01:500]   b  '') =
     Inr [\<lparr>time_s = 3 / 2, line_text = U ''a''\<rparr>, \<lparr>time_s = 3 / 2, line_text = U ''b''\<rparr>,
          \<lparr>time_s = 2, line_text = U ''c''\<rparr>] \<and>
   length (filter (matching ascii_dv)
             (splitlines (U ''[00:02] c'' @ [10] @ U ''junk'' @ [10] @ U ''[00:01.5] a'' @ [13, 10]
                       @ U ''  [0:01:500]   b  ''))) = 3"
proof -
  have e: "parse_lrc ascii_dv (U ''[00:02] c'' @ [10] @ U ''junk'' @ [10] @ U ''[00:01.5] a'' @ [13, 10]
                       @ U ''  [0:01:500]   b  '') =
     Inr [\<lparr>time_s = 3 / 2, line_text = U ''a''\<rparr>, \<lparr>time_s = 3 / 2, line_text = U ''b''\<rparr>,
          \<lparr>time_s = 2, line_text = U ''c''\<rparr>]"
    unfolding parse_lrc_def splitlines_example
    by (simp add: parse_line_def parser_eval py_int_def digits_value_def ljust_def Let_def
        replicate_small)
  obtain ls where ls: "parse_lrc ascii_dv (U ''[00:02] c'' @ [10] @ U ''junk'' @ [10] @ U ''[00:01.5] a''
                         @ [13, 10] @ U ''  [0:01:500]   b  '') = Inr ls"
    "length ls = length (filter (matching ascii_dv)
             (splitlines (U ''[00:02] c'' @ [10] @ U ''junk'' @ [10] @ U ''[00:01.5] a'' @ [13, 10]
                       @ U ''  [0:01:500]   b  '')))"
    using parse_lrc_sorted_stable[OF ascii_digits_ascii_dv,
        of "U ''[00:02] c'' @ [10] @ U ''junk'' @ [10] @ U ''[00:01.5] a'' @ [13, 10]
                       @ U ''  [0:01:500]   b  ''"]
    by blast
  have lsv: "ls = [\<lparr>time_s = 3 / 2, line_text = U ''a''\<rparr>, \<lparr>time_s = 3 / 2, line_text = U ''b''\<rparr>,
          \<lparr>time_s = 2, line_text = U ''c''\<rparr>]"
    using ls(1) e by simp
  have "length (filter (matching ascii_dv)
             (splitlines (U ''[00:02] c'' @ [10] @ U ''junk'' @ [10] @ U ''[00:01.5] a'' @ [13, 10]
                       @ U ''  [0:01:500]   b  ''))) = 3"
    unfolding ls(2)[symmetric] lsv by simp
  then show ?thesis using e ascii_digits_ascii_dv by blast
qed

end
